theory Spec2Isabelle
  imports Complex_Main
begin

section \<open>Data model\<close>

text \<open>
  The module \<^verbatim>\<open>account_check_deposit/models/account_check_deposit.py\<close> defines the
  record type \<^verbatim>\<open>account.check.deposit\<close> on top of the host's object-relational
  framework. The embedding keeps the database as an explicit value: the tables of
  accounting moves, move lines and deposits are lists of records in storage order, a
  Many2one field is an optional record id (\<open>None\<close> is the empty recordset, Python's
  \<open>False\<close>), and a required Many2one is a plain id. Record ids are the positive
  integers the host's sequences hand out, so \<^verbatim>\<open>x.id or False\<close> is the optional id
  itself.

  Monetary amounts are Python floats in the source. Their type is a parameter \<open>'a\<close> of
  the embedding, with a zero, a one, an addition, a multiplication, a negation and a
  total order (the amounts come from numeric columns: there is no NaN among them, and
  the two zeros are one number). No law of arithmetic is built in: where a statement
  needs one, it says so, and every sum is written as the accumulation the code or the
  host performs, in its order.
\<close>

datatype move_state = Draft | Posted | Cancel

datatype deposit_state = DepDraft | DepDone

record account_move =
  am_id :: nat
  am_journal_id :: nat
  am_date :: nat
  am_ref :: string
  am_company_id :: nat
  am_state :: move_state

record 'a account_move_line =
  aml_id :: nat
  aml_name :: "string option"
  aml_ref :: "string option"
  aml_debit :: 'a
  aml_credit :: 'a
  aml_account_id :: "nat option"
  aml_partner_id :: "nat option"
  aml_currency_id :: "nat option"
  aml_amount_currency :: 'a
  aml_move_id :: nat
  aml_check_deposit_id :: "nat option"
  aml_reconciled :: bool

record 'a deposit =
  dep_id :: nat
  dep_name :: string
  dep_deposit_date :: nat
  dep_journal_id :: nat
  dep_in_hand_check_account_id :: "nat option"
  dep_currency_id :: nat
  dep_state :: deposit_state
  dep_move_id :: "nat option"
  dep_bank_journal_id :: nat
  dep_company_id :: nat
  dep_total_amount :: 'a
  dep_check_count :: nat

text \<open>Master data of the host that the module only reads.\<close>

record payment_method_line =
  pml_payment_method_code :: string
  pml_payment_account_id :: "nat option"

record journal =
  jr_company_id :: nat
  jr_currency_id :: "nat option"
  jr_inbound_payment_method_line_ids :: "payment_method_line list"
  jr_update_posted :: bool

record company =
  comp_currency_id :: nat
  comp_account_journal_payment_debit_account_id :: "nat option"
  comp_display_name :: string

record currency =
  cur_name :: string
  cur_display_name :: string

text \<open>
  The messages of the exceptions the module raises carry their format arguments; the
  translated wording around them is not modelled. \<open>UnbalancedEntry\<close>,
  \<open>PostedEntryLocked\<close> and \<open>IntegrityError\<close> are raised by the host, the others by
  the module.
\<close>

datatype 'a message =
    CurrencyMismatch 'a string "string option" string
  | DepositInValidState string
  | MissingOutstandingReceiptsAccount string
  | NoReceivedChecks "string option" string
  | UnbalancedEntry
  | PostedEntryLocked

datatype 'a error =
    ValidationError "'a message"
  | UserError "'a message"
  | AssertionError string
  | MissingError
  | ValueError
  | IntegrityError

fun user_facing :: "'a error \<Rightarrow> bool" where
  "user_facing (ValidationError m) = True"
| "user_facing (UserError m) = True"
| "user_facing e = False"

record 'a env =
  env_moves :: "account_move list"
  env_lines :: "'a account_move_line list"
  env_deposits :: "'a deposit list"
  next_move_id :: nat
  next_line_id :: nat
  next_deposit_id :: nat
  seq_next :: "nat \<Rightarrow> nat"
  chatter :: "(nat \<times> string) list"
  journals :: "nat \<Rightarrow> journal"
  companies :: "nat \<Rightarrow> company"
  currencies :: "nat \<Rightarrow> currency"
  account_display_name :: "nat \<Rightarrow> string"
  seq_render :: "nat \<Rightarrow> nat \<Rightarrow> nat option \<Rightarrow> string"
  env_company :: nat
  today :: nat
  rg_sums_amount_currency :: bool

section \<open>Host services\<close>

text \<open>
  The services of the host framework that the module calls, with the effect each has
  on the tables. A raised exception aborts the enclosing transaction: an operation
  returns \<open>Inl\<close> the error, and the database stays the one it was called on
  (\<open>commit\<close>).
\<close>

definition commit :: "'a env \<Rightarrow> 'a error + 'a env \<Rightarrow> 'a env" where
  "commit e r = (case r of Inl err \<Rightarrow> e | Inr e' \<Rightarrow> e')"

definition get_deposit :: "'a env \<Rightarrow> nat \<Rightarrow> 'a deposit option" where
  "get_deposit e i = find (\<lambda>d. dep_id d = i) (env_deposits e)"

definition get_move :: "'a env \<Rightarrow> nat \<Rightarrow> account_move option" where
  "get_move e m = find (\<lambda>mv. am_id mv = m) (env_moves e)"

definition get_line :: "'a env \<Rightarrow> nat \<Rightarrow> 'a account_move_line option" where
  "get_line e i = find (\<lambda>l. aml_id l = i) (env_lines e)"

text \<open>The One2many field \<^verbatim>\<open>check_payment_ids\<close>: the lines whose \<^verbatim>\<open>check_deposit_id\<close> is the deposit.\<close>

definition check_payment_ids :: "'a env \<Rightarrow> nat \<Rightarrow> 'a account_move_line list" where
  "check_payment_ids e i = filter (\<lambda>l. aml_check_deposit_id l = Some i) (env_lines e)"

text \<open>The One2many field \<^verbatim>\<open>line_ids\<close> of a move.\<close>

definition move_lines :: "'a env \<Rightarrow> nat \<Rightarrow> 'a account_move_line list" where
  "move_lines e m = filter (\<lambda>l. aml_move_id l = m) (env_lines e)"

record move_vals =
  mv_journal_id :: nat
  mv_date :: nat
  mv_ref :: string
  mv_company_id :: nat

record 'a line_vals =
  lv_name :: "string option"
  lv_credit :: 'a
  lv_debit :: 'a
  lv_account_id :: "nat option"
  lv_partner_id :: "nat option"
  lv_currency_id :: "nat option"
  lv_amount_currency :: 'a
  lv_move_id :: "nat option"

text \<open>\<^verbatim>\<open>account.move.create\<close>: a new draft move under the next id.\<close>

definition am_create :: "'a env \<Rightarrow> move_vals \<Rightarrow> 'a env \<times> nat" where
  "am_create e v =
     (e\<lparr>env_moves := env_moves e @
          [\<lparr>am_id = next_move_id e, am_journal_id = mv_journal_id v, am_date = mv_date v,
            am_ref = mv_ref v, am_company_id = mv_company_id v, am_state = Draft\<rparr>],
        next_move_id := Suc (next_move_id e)\<rparr>,
      next_move_id e)"

text \<open>
  A total as a program accumulates it: \<^verbatim>\<open>total = 0.0\<close>, then \<^verbatim>\<open>total += x\<close> for each
  amount in turn.
\<close>

definition fsum :: "'a::{zero,plus} list \<Rightarrow> 'a" where
  "fsum xs = foldl (+) 0 xs"

text \<open>
  The validity check of the host on a move: its debits and its credits, added up in
  storage order, give the same total.
\<close>

definition balanced :: "'a::{zero,plus} env \<Rightarrow> nat \<Rightarrow> bool" where
  "balanced e m =
     (fsum (map aml_debit (move_lines e m)) = fsum (map aml_credit (move_lines e m)))"

definition new_line :: "nat \<Rightarrow> nat \<Rightarrow> 'a line_vals \<Rightarrow> 'a account_move_line" where
  "new_line i m v =
     \<lparr>aml_id = i, aml_name = lv_name v, aml_ref = None, aml_debit = lv_debit v,
      aml_credit = lv_credit v, aml_account_id = lv_account_id v,
      aml_partner_id = lv_partner_id v, aml_currency_id = lv_currency_id v,
      aml_amount_currency = lv_amount_currency v, aml_move_id = m,
      aml_check_deposit_id = None, aml_reconciled = False\<rparr>"

text \<open>
  \<^verbatim>\<open>account.move.line.create\<close>: a new unreconciled line of the move named in the
  values, under the next id. The first argument is the context key
  \<^verbatim>\<open>check_move_validity\<close> (true unless the caller clears it): with it the host refuses
  a line that leaves its move unbalanced.
\<close>

definition aml_create :: "bool \<Rightarrow> 'a::{zero,plus} env \<Rightarrow> 'a line_vals \<Rightarrow> 'a error + ('a env \<times> nat)" where
  "aml_create check_move_validity e v =
     (case lv_move_id v of
        None \<Rightarrow> Inl IntegrityError
      | Some m \<Rightarrow>
          let e' = e\<lparr>env_lines := env_lines e @ [new_line (next_line_id e) m v],
                     next_line_id := Suc (next_line_id e)\<rparr>
          in if check_move_validity \<and> \<not> balanced e' m then Inl (UserError UnbalancedEntry)
             else Inr (e', next_line_id e))"

definition action_post :: "'a env \<Rightarrow> nat \<Rightarrow> 'a env" where
  "action_post e m =
     e\<lparr>env_moves := map (\<lambda>mv. if am_id mv = m then mv\<lparr>am_state := Posted\<rparr> else mv) (env_moves e)\<rparr>"

text \<open>
  \<^verbatim>\<open>button_draft\<close>: the source notes that it raises when the move's journal does not
  allow changing posted entries (\<^verbatim>\<open>update_posted = False\<close>).
\<close>

definition button_draft :: "'a env \<Rightarrow> account_move \<Rightarrow> 'a error + 'a env" where
  "button_draft e move =
     (if \<not> jr_update_posted (journals e (am_journal_id move)) then Inl (UserError PostedEntryLocked)
      else Inr (e\<lparr>env_moves :=
                   map (\<lambda>mv. if am_id mv = am_id move then mv\<lparr>am_state := Draft\<rparr> else mv)
                     (env_moves e)\<rparr>))"

definition set_reconciled :: "bool \<Rightarrow> nat list \<Rightarrow> 'a account_move_line list \<Rightarrow> 'a account_move_line list" where
  "set_reconciled b ids ls = map (\<lambda>l. if aml_id l \<in> set ids then l\<lparr>aml_reconciled := b\<rparr> else l) ls"

text \<open>\<^verbatim>\<open>(line + move_line).reconcile()\<close> on a pair of lines, and \<^verbatim>\<open>line.remove_move_reconcile()\<close>.\<close>

definition reconcile :: "'a env \<Rightarrow> nat \<times> nat \<Rightarrow> 'a env" where
  "reconcile e p = e\<lparr>env_lines := set_reconciled True [fst p, snd p] (env_lines e)\<rparr>"

definition remove_move_reconcile :: "'a env \<Rightarrow> nat \<Rightarrow> 'a env" where
  "remove_move_reconcile e i = e\<lparr>env_lines := set_reconciled False [i] (env_lines e)\<rparr>"

text \<open>
  \<^verbatim>\<open>move.unlink()\<close>: the move goes, its lines go with it (\<^verbatim>\<open>ondelete='cascade'\<close>), and a
  deposit that referenced it has \<^verbatim>\<open>move_id\<close> emptied (the default \<^verbatim>\<open>ondelete='set null'\<close>
  of a Many2one).
\<close>

definition am_unlink :: "'a env \<Rightarrow> nat \<Rightarrow> 'a env" where
  "am_unlink e m =
     e\<lparr>env_moves := filter (\<lambda>mv. am_id mv \<noteq> m) (env_moves e),
       env_lines := filter (\<lambda>l. aml_move_id l \<noteq> m) (env_lines e),
       env_deposits :=
         map (\<lambda>d. if dep_move_id d = Some m then d\<lparr>dep_move_id := None\<rparr> else d) (env_deposits e)\<rparr>"

text \<open>\<^verbatim>\<open>deposit.write(...)\<close> on the deposit with the given id.\<close>

definition deposit_write :: "'a env \<Rightarrow> nat \<Rightarrow> ('a deposit \<Rightarrow> 'a deposit) \<Rightarrow> 'a env" where
  "deposit_write e i f = e\<lparr>env_deposits := map (\<lambda>d. if dep_id d = i then f d else d) (env_deposits e)\<rparr>"

section \<open>The module's operations\<close>

text \<open>
  The methods of \<^verbatim>\<open>AccountCheckDeposit\<close> that read or change records, in the order of
  the workflow. A method bound to a recordset takes the list of its ids, and a loop
  \<^verbatim>\<open>for deposit in self\<close> reads each record when its turn comes; reading a record
  that does not exist raises \<open>MissingError\<close>. \<^verbatim>\<open>default_get\<close>, the two onchange
  methods and \<^verbatim>\<open>get_report\<close> prepare a form or a report and change no record; they
  are left out.
\<close>

subsection \<open>Preparing the values of the move and of its lines\<close>

definition prepare_account_move_vals :: "'a deposit \<Rightarrow> move_vals" where
  "prepare_account_move_vals d =
     \<lparr>mv_journal_id = dep_journal_id d, mv_date = dep_deposit_date d,
      mv_ref = ''Check Deposit '' @ dep_name d, mv_company_id = dep_company_id d\<rparr>"

text \<open>
  In \<^verbatim>\<open>line.ref and _("Check Ref. %s") % line.ref or False\<close> a \<^verbatim>\<open>ref\<close> that is
  \<open>False\<close> or the empty string is false, and the formatted string is never empty.
\<close>

definition prepare_move_line_vals ::
  "'a::{zero,one,plus,times,uminus,linorder} account_move_line \<Rightarrow> 'a error + 'a line_vals" where
  "prepare_move_line_vals line =
     (if \<not> aml_debit line > 0 then Inl (AssertionError ''Debit must have a value'')
      else Inr \<lparr>lv_name = (case aml_ref line of
                             None \<Rightarrow> None
                           | Some r \<Rightarrow> if r \<noteq> [] then Some (''Check Ref. '' @ r) else None),
                lv_credit = aml_debit line,
                lv_debit = 0,
                lv_account_id = aml_account_id line,
                lv_partner_id = aml_partner_id line,
                lv_currency_id = aml_currency_id line,
                lv_amount_currency = aml_amount_currency line * (- 1),
                lv_move_id = None\<rparr>)"

text \<open>
  The loop of \<^verbatim>\<open>_prepare_counterpart_move_lines_vals\<close> over the inbound payment method
  lines of the bank journal: the account of the first line whose method is
  \<^verbatim>\<open>manual\<close> and that has an account.
\<close>

fun manual_payment_account :: "payment_method_line list \<Rightarrow> nat option" where
  "manual_payment_account [] = None"
| "manual_payment_account (line # ls) =
     (if pml_payment_method_code line = ''manual'' \<and> pml_payment_account_id line \<noteq> None
      then pml_payment_account_id line
      else manual_payment_account ls)"

definition counterpart_account :: "'a env \<Rightarrow> 'a deposit \<Rightarrow> nat option" where
  "counterpart_account e d =
     (case manual_payment_account
             (jr_inbound_payment_method_line_ids (journals e (dep_bank_journal_id d))) of
        Some a \<Rightarrow> Some a
      | None \<Rightarrow> comp_account_journal_payment_debit_account_id (companies e (dep_company_id d)))"

definition prepare_counterpart_move_lines_vals ::
  "'a::zero env \<Rightarrow> 'a deposit \<Rightarrow> 'a \<Rightarrow> 'a \<Rightarrow> 'a error + 'a line_vals" where
  "prepare_counterpart_move_lines_vals e d total_debit total_amount_currency =
     (case counterpart_account e d of
        None \<Rightarrow>
          Inl (UserError (MissingOutstandingReceiptsAccount
                 (comp_display_name (companies e (dep_company_id d)))))
      | Some account_id \<Rightarrow>
          Inr \<lparr>lv_name = None,
                lv_credit = 0,
                lv_debit = total_debit,
                lv_account_id = Some account_id,
                lv_partner_id = None,
                lv_currency_id = Some (dep_currency_id d),
                lv_amount_currency = total_amount_currency,
                lv_move_id = None\<rparr>)"

subsection \<open>validate_deposit\<close>

text \<open>
  The inner loop of \<^verbatim>\<open>validate_deposit\<close> over the check lines of one deposit. It
  carries the database, the two running totals and the list of pairs to reconcile. The
  totals start at zero and each line is added on the right (\<^verbatim>\<open>total_debit += line.debit\<close>),
  before the values of its offsetting line are prepared.
\<close>

fun offset_lines ::
  "'a::{zero,one,plus,times,uminus,linorder} env \<Rightarrow> nat \<Rightarrow> 'a account_move_line list \<Rightarrow> 'a \<Rightarrow> 'a
   \<Rightarrow> (nat \<times> nat) list
   \<Rightarrow> 'a error + ('a env \<times> 'a \<times> 'a \<times> (nat \<times> nat) list)" where
  "offset_lines e move [] total_debit total_amount_currency to_reconcile_lines =
     Inr (e, total_debit, total_amount_currency, to_reconcile_lines)"
| "offset_lines e move (line # ls) total_debit total_amount_currency to_reconcile_lines =
     (let total_debit = total_debit + aml_debit line;
          total_amount_currency = total_amount_currency + aml_amount_currency line
      in case prepare_move_line_vals line of
           Inl err \<Rightarrow> Inl err
         | Inr line_vals \<Rightarrow>
             (case aml_create False e (line_vals\<lparr>lv_move_id := Some move\<rparr>) of
                Inl err \<Rightarrow> Inl err
              | Inr (e', move_line) \<Rightarrow>
                  offset_lines e' move ls total_debit total_amount_currency
                    (to_reconcile_lines @ [(aml_id line, move_line)])))"

definition validate_one :: "'a::{zero,one,plus,times,uminus,linorder} env \<Rightarrow> nat \<Rightarrow> 'a error + 'a env" where
  "validate_one e i =
     (case get_deposit e i of
        None \<Rightarrow> Inl MissingError
      | Some deposit \<Rightarrow>
          (case am_create e (prepare_account_move_vals deposit) of
             (e1, move) \<Rightarrow>
               (case offset_lines e1 move (check_payment_ids e1 i) 0 0 [] of
                  Inl err \<Rightarrow> Inl err
                | Inr (e2, total_debit, total_amount_currency, to_reconcile_lines) \<Rightarrow>
                    (case prepare_counterpart_move_lines_vals e2 deposit total_debit
                            total_amount_currency of
                       Inl err \<Rightarrow> Inl err
                     | Inr counter_vals \<Rightarrow>
                         (case aml_create True e2 (counter_vals\<lparr>lv_move_id := Some move\<rparr>) of
                            Inl err \<Rightarrow> Inl err
                          | Inr (e3, counterpart) \<Rightarrow>
                              Inr (foldl reconcile
                                     (deposit_write (action_post e3 move) i
                                        (\<lambda>d. d\<lparr>dep_state := DepDone, dep_move_id := Some move\<rparr>))
                                     to_reconcile_lines))))))"

fun validate_deposit :: "'a::{zero,one,plus,times,uminus,linorder} env \<Rightarrow> nat list \<Rightarrow> 'a error + 'a env" where
  "validate_deposit e [] = Inr e"
| "validate_deposit e (i # ids) =
     (case validate_one e i of Inl err \<Rightarrow> Inl err | Inr e' \<Rightarrow> validate_deposit e' ids)"

subsection \<open>backtodraft\<close>

text \<open>
  The loop over the check lines of the deposit: \<^verbatim>\<open>line.reconciled\<close> is read from the
  database as it is when the line's turn comes.
\<close>

fun unreconcile_lines :: "'a env \<Rightarrow> 'a account_move_line list \<Rightarrow> 'a env" where
  "unreconcile_lines e [] = e"
| "unreconcile_lines e (line # ls) =
     unreconcile_lines
       (case get_line e (aml_id line) of
          None \<Rightarrow> e
        | Some l \<Rightarrow> if aml_reconciled l then remove_move_reconcile e (aml_id line) else e)
       ls"

definition backtodraft_one :: "'a env \<Rightarrow> nat \<Rightarrow> 'a error + 'a env" where
  "backtodraft_one e i =
     (case get_deposit e i of
        None \<Rightarrow> Inl MissingError
      | Some deposit \<Rightarrow>
          (case dep_move_id deposit of
             None \<Rightarrow> Inr (deposit_write e i (\<lambda>d. d\<lparr>dep_state := DepDraft\<rparr>))
           | Some m \<Rightarrow>
               (case get_move e m of
                  None \<Rightarrow> Inl MissingError
                | Some move \<Rightarrow>
                    (case (if am_state move = Posted then button_draft e move else Inr e) of
                       Inl err \<Rightarrow> Inl err
                     | Inr e1 \<Rightarrow>
                         Inr (deposit_write
                                (am_unlink (unreconcile_lines e1 (check_payment_ids e1 i)) m) i
                                (\<lambda>d. d\<lparr>dep_state := DepDraft\<rparr>))))))"

fun backtodraft :: "'a env \<Rightarrow> nat list \<Rightarrow> 'a error + 'a env" where
  "backtodraft e [] = Inr e"
| "backtodraft e (i # ids) =
     (case backtodraft_one e i of Inl err \<Rightarrow> Inl err | Inr e' \<Rightarrow> backtodraft e' ids)"

subsection \<open>unlink\<close>

text \<open>\<^verbatim>\<open>self.filtered(lambda x: x.state == "done")\<close>; reading a record that is gone raises.\<close>

fun filtered_done :: "'a env \<Rightarrow> nat list \<Rightarrow> 'a error + 'a deposit list" where
  "filtered_done e [] = Inr []"
| "filtered_done e (i # ids) =
     (case get_deposit e i of
        None \<Rightarrow> Inl MissingError
      | Some x \<Rightarrow>
          (case filtered_done e ids of
             Inl err \<Rightarrow> Inl err
           | Inr ds \<Rightarrow> Inr (if dep_state x = DepDone then x # ds else ds)))"

text \<open>
  The default deletion of the host: the records go, and the lines that pointed at
  them have \<^verbatim>\<open>check_deposit_id\<close> emptied.
\<close>

definition super_unlink :: "'a env \<Rightarrow> nat list \<Rightarrow> 'a env" where
  "super_unlink e ids =
     e\<lparr>env_deposits := filter (\<lambda>d. dep_id d \<notin> set ids) (env_deposits e),
       env_lines :=
         map (\<lambda>l. case aml_check_deposit_id l of
                     None \<Rightarrow> l
                   | Some i \<Rightarrow> if i \<in> set ids then l\<lparr>aml_check_deposit_id := None\<rparr> else l)
           (env_lines e)\<rparr>"

definition unlink :: "'a env \<Rightarrow> nat list \<Rightarrow> 'a error + 'a env" where
  "unlink e ids =
     (case filtered_done e ids of
        Inl err \<Rightarrow> Inl err
      | Inr [] \<Rightarrow> Inr (super_unlink e ids)
      | Inr (deposit # ds) \<Rightarrow> Inl (UserError (DepositInValidState (dep_name deposit))))"

subsection \<open>The currency constraint\<close>

definition ref_or_empty :: "string option \<Rightarrow> string" where
  "ref_or_empty r = (case r of None \<Rightarrow> [] | Some s \<Rightarrow> s)"

fun check_lines :: "'a env \<Rightarrow> 'a deposit \<Rightarrow> 'a account_move_line list \<Rightarrow> 'a error + unit" where
  "check_lines e deposit [] = Inr ()"
| "check_lines e deposit (line # ls) =
     (if aml_currency_id line \<noteq> Some (dep_currency_id deposit)
      then Inl (ValidationError
                  (CurrencyMismatch (aml_debit line) (ref_or_empty (aml_ref line))
                     (map_option (\<lambda>c. cur_name (currencies e c)) (aml_currency_id line))
                     (cur_name (currencies e (dep_currency_id deposit)))))
      else check_lines e deposit ls)"

fun check_deposit :: "'a env \<Rightarrow> nat list \<Rightarrow> 'a error + unit" where
  "check_deposit e [] = Inr ()"
| "check_deposit e (i # ids) =
     (case get_deposit e i of
        None \<Rightarrow> Inl MissingError
      | Some deposit \<Rightarrow>
          (case check_lines e deposit (check_payment_ids e i) of
             Inl err \<Rightarrow> Inl err
           | Inr u \<Rightarrow> check_deposit e ids))"

subsection \<open>The derived totals\<close>

text \<open>
  \<^verbatim>\<open>read_group\<close> of the host, grouped by \<^verbatim>\<open>check_deposit_id\<close>: one row for each
  deposit of the domain that has lines, with the sum of \<^verbatim>\<open>debit\<close> (added up in
  storage order) and the number of lines. A row holds the sum of \<^verbatim>\<open>amount_currency\<close>
  only when the host aggregates that field (\<open>rg_sums_amount_currency\<close>: a field
  declared without a group operator is left out of the rows); the source reads it
  with \<^verbatim>\<open>x.get("amount_currency", 0)\<close>.
\<close>

record 'a rg_row =
  rg_check_deposit_id :: nat
  rg_debit :: 'a
  rg_amount_currency :: "'a option"
  rg_check_deposit_id_count :: nat

definition read_group :: "'a::{zero,plus} env \<Rightarrow> nat list \<Rightarrow> 'a rg_row list" where
  "read_group e ids =
     map (\<lambda>i. \<lparr>rg_check_deposit_id = i,
                rg_debit = fsum (map aml_debit (check_payment_ids e i)),
                rg_amount_currency =
                  (if rg_sums_amount_currency e
                   then Some (fsum (map aml_amount_currency (check_payment_ids e i)))
                   else None),
                rg_check_deposit_id_count = length (check_payment_ids e i)\<rparr>)
       (filter (\<lambda>i. check_payment_ids e i \<noteq> []) (remdups ids))"

record 'a mapped_row =
  md_debit :: 'a
  md_amount_currency :: 'a
  md_count :: nat

text \<open>The dictionary comprehension: a later row with the same key replaces an earlier one.\<close>

definition mapped_data :: "'a::zero rg_row list \<Rightarrow> (nat \<rightharpoonup> 'a mapped_row)" where
  "mapped_data rg_res =
     foldl (\<lambda>m x. m(rg_check_deposit_id x \<mapsto>
                       \<lparr>md_debit = rg_debit x,
                        md_amount_currency = (case rg_amount_currency x of None \<Rightarrow> 0 | Some a \<Rightarrow> a),
                        md_count = rg_check_deposit_id_count x\<rparr>))
       Map.empty rg_res"

text \<open>
  The loop over \<^verbatim>\<open>self\<close> assigns the two fields of each deposit from the dictionary,
  which is built before the loop: each record of \<^verbatim>\<open>self\<close> is updated on its own.
\<close>

definition compute_check_deposit :: "'a::{zero,plus} env \<Rightarrow> nat list \<Rightarrow> 'a env" where
  "compute_check_deposit e ids =
     (let md = mapped_data (read_group e ids)
      in e\<lparr>env_deposits :=
             map (\<lambda>deposit.
                    if dep_id deposit \<in> set ids
                    then deposit
                           \<lparr>dep_total_amount :=
                              (if comp_currency_id (companies e (dep_company_id deposit))
                                    \<noteq> dep_currency_id deposit
                               then (case md (dep_id deposit) of
                                       None \<Rightarrow> 0 | Some r \<Rightarrow> md_amount_currency r)
                               else (case md (dep_id deposit) of
                                       None \<Rightarrow> 0 | Some r \<Rightarrow> md_debit r)),
                            dep_check_count :=
                              (case md (dep_id deposit) of None \<Rightarrow> 0 | Some r \<Rightarrow> md_count r)\<rparr>
                    else deposit)
               (env_deposits e)\<rparr>)"

subsection \<open>The in-hand-check account\<close>

text \<open>
  \<^verbatim>\<open>_compute_in_hand_check_account_id\<close>: the accounts of the manual inbound payment
  method lines of the journal, as a recordset (no duplicates, no empty account). A
  Many2one field takes at most one record.
\<close>

definition manual_accounts :: "journal \<Rightarrow> nat list" where
  "manual_accounts j =
     remdups (concat (map (\<lambda>line. case pml_payment_account_id line of None \<Rightarrow> [] | Some a \<Rightarrow> [a])
                        (filter (\<lambda>line. pml_payment_method_code line = ''manual'')
                           (jr_inbound_payment_method_line_ids j))))"

definition compute_in_hand_check_account_id :: "'a env \<Rightarrow> nat \<Rightarrow> 'a error + nat option" where
  "compute_in_hand_check_account_id e journal_id =
     (case manual_accounts (journals e journal_id) of
        [] \<Rightarrow> Inr None
      | [a] \<Rightarrow> Inr (Some a)
      | a # b # as \<Rightarrow> Inl ValueError)"

subsection \<open>create\<close>

text \<open>
  The dictionary \<^verbatim>\<open>vals\<close>, with a key for each stored field of the model that is not
  computed: a key that is absent is \<open>None\<close>, and the One2many \<^verbatim>\<open>check_payment_ids\<close>
  is the list of the lines to attach (empty when the key is absent). The fields
  \<^verbatim>\<open>state\<close> and \<^verbatim>\<open>move_id\<close> are declared \<^verbatim>\<open>readonly=True\<close>, which binds the forms of
  the client only: \<^verbatim>\<open>create\<close> passes the dictionary on as it is, so a caller can give
  them, and the host's \<^verbatim>\<open>copy\<close> does (they are not declared \<^verbatim>\<open>copy=False\<close>). The
  computed fields are set by the host's computation, not from the dictionary.
\<close>

record create_vals =
  cv_name :: "string option"
  cv_company_id :: "nat option"
  cv_deposit_date :: "nat option"
  cv_journal_id :: "nat option"
  cv_currency_id :: "nat option"
  cv_bank_journal_id :: "nat option"
  cv_check_payment_ids :: "nat list"
  cv_state :: "deposit_state option"
  cv_move_id :: "nat option"

text \<open>
  The host's \<^verbatim>\<open>create\<close> stores a new record under the next id, with the values given
  and the defaults of the fields that are not (\<^verbatim>\<open>state\<close> is draft, \<^verbatim>\<open>move_id\<close> is
  empty, the date is today), and links the lines named in the values to it. The three
  required fields without a default are read here after the host has found them given.
\<close>

definition insert_deposit ::
  "'a::zero env \<Rightarrow> string \<Rightarrow> nat \<Rightarrow> create_vals \<Rightarrow> nat option \<Rightarrow> 'a env" where
  "insert_deposit e name company_id vals account =
     e\<lparr>env_deposits := env_deposits e @
          [\<lparr>dep_id = next_deposit_id e, dep_name = name,
            dep_deposit_date = (case cv_deposit_date vals of None \<Rightarrow> today e | Some d \<Rightarrow> d),
            dep_journal_id = the (cv_journal_id vals),
            dep_in_hand_check_account_id = account,
            dep_currency_id = the (cv_currency_id vals),
            dep_state = (case cv_state vals of None \<Rightarrow> DepDraft | Some s \<Rightarrow> s),
            dep_move_id = cv_move_id vals,
            dep_bank_journal_id = the (cv_bank_journal_id vals),
            dep_company_id = company_id,
            dep_total_amount = 0, dep_check_count = 0\<rparr>],
       next_deposit_id := Suc (next_deposit_id e),
       env_lines :=
         map (\<lambda>l. if aml_id l \<in> set (cv_check_payment_ids vals)
                   then l\<lparr>aml_check_deposit_id := Some (next_deposit_id e)\<rparr> else l)
           (env_lines e)\<rparr>"

text \<open>
  Around it the host checks that the required fields are given, the unique constraint
  on \<open>(company_id, name)\<close> and the foreign key of \<^verbatim>\<open>move_id\<close>, computes the stored
  computed fields of the new record and runs its constraint method. The host's check
  that the journals and the move belong to the deposit's company (\<^verbatim>\<open>check_company\<close>)
  is left out: it only refuses more values.
\<close>

definition super_create ::
  "'a::{zero,plus} env \<Rightarrow> string \<Rightarrow> nat \<Rightarrow> create_vals \<Rightarrow> 'a error + 'a env" where
  "super_create e name company_id vals =
     (if cv_journal_id vals = None \<or> cv_currency_id vals = None \<or> cv_bank_journal_id vals = None
      then Inl IntegrityError
      else if \<exists>d \<in> set (env_deposits e). dep_company_id d = company_id \<and> dep_name d = name
      then Inl IntegrityError
      else if (case cv_move_id vals of None \<Rightarrow> False | Some m \<Rightarrow> get_move e m = None)
      then Inl IntegrityError
      else
        (case compute_in_hand_check_account_id e (the (cv_journal_id vals)) of
           Inl err \<Rightarrow> Inl err
         | Inr account \<Rightarrow>
             let e' = compute_check_deposit (insert_deposit e name company_id vals account)
                        [next_deposit_id e]
             in (case check_deposit e' [next_deposit_id e] of Inl err \<Rightarrow> Inl err | Inr u \<Rightarrow> Inr e')))"

text \<open>
  \<^verbatim>\<open>create\<close> of the module: a name that is missing or \<^verbatim>\<open>"/"\<close> is replaced by the next
  value of the sequence of the company.
\<close>

definition create :: "'a::{zero,plus} env \<Rightarrow> create_vals \<Rightarrow> 'a error + 'a env" where
  "create e vals =
     (let company_id = (case cv_company_id vals of None \<Rightarrow> env_company e | Some c \<Rightarrow> c)
      in if (case cv_name vals of None \<Rightarrow> ''/'' | Some n \<Rightarrow> n) = ''/''
         then super_create (e\<lparr>seq_next := (seq_next e)(company_id := Suc (seq_next e company_id))\<rparr>)
                (seq_render e company_id (seq_next e company_id) (cv_deposit_date vals))
                company_id vals
         else super_create e (case cv_name vals of None \<Rightarrow> ''/'' | Some n \<Rightarrow> n) company_id vals)"

subsection \<open>get_all_checks\<close>

text \<open>The related fields \<^verbatim>\<open>company_id\<close> and \<^verbatim>\<open>parent_state\<close> of a line are those of its move.\<close>

definition pending_check ::
  "'a::{zero,ord} env \<Rightarrow> 'a deposit \<Rightarrow> 'a account_move_line \<Rightarrow> bool" where
  "pending_check e self l =
     (map_option am_company_id (get_move e (aml_move_id l)) = Some (dep_company_id self)
      \<and> aml_reconciled l = False
      \<and> aml_account_id l = dep_in_hand_check_account_id self
      \<and> aml_debit l > 0
      \<and> aml_check_deposit_id l = None
      \<and> aml_currency_id l = Some (dep_currency_id self)
      \<and> map_option am_state (get_move e (aml_move_id l)) = Some Posted)"

definition get_all_checks :: "'a::{zero,ord} env \<Rightarrow> nat list \<Rightarrow> 'a error + 'a env" where
  "get_all_checks e ids =
     (case ids of
        [i] \<Rightarrow>
          (case get_deposit e i of
             None \<Rightarrow> Inl MissingError
           | Some self \<Rightarrow>
               let all_pending_checks = filter (pending_check e self) (env_lines e)
               in if all_pending_checks \<noteq> []
                  then Inr (e\<lparr>chatter := chatter e @ [(i, ''Get All Received Checks'')],
                             env_lines :=
                               map (\<lambda>l. if aml_id l \<in> aml_id ` set all_pending_checks
                                         then l\<lparr>aml_check_deposit_id := Some i\<rparr> else l)
                                 (env_lines e)\<rparr>)
                  else Inl (UserError
                              (NoReceivedChecks
                                 (map_option (account_display_name e)
                                    (dep_in_hand_check_account_id self))
                                 (cur_display_name (currencies e (dep_currency_id self))))))
      | _ \<Rightarrow> Inl ValueError)"

section \<open>Notions used in the statements\<close>

text \<open>
  The line that the loop of \<^verbatim>\<open>validate_deposit\<close> creates for a check line under the id
  \<open>k\<close> (the values of \<open>prepare_move_line_vals\<close>, given to \<open>new_line\<close>), the lines
  created for a list of check lines from the id \<open>n\<close> on, and the counterpart line.
\<close>

definition offset_line ::
  "nat \<Rightarrow> nat \<Rightarrow> 'a::{zero,one,plus,times,uminus,linorder} account_move_line \<Rightarrow> 'a account_move_line" where
  "offset_line move k line =
     \<lparr>aml_id = k,
      aml_name = (case aml_ref line of
                    None \<Rightarrow> None
                  | Some r \<Rightarrow> if r \<noteq> [] then Some (''Check Ref. '' @ r) else None),
      aml_ref = None, aml_debit = 0, aml_credit = aml_debit line,
      aml_account_id = aml_account_id line, aml_partner_id = aml_partner_id line,
      aml_currency_id = aml_currency_id line,
      aml_amount_currency = aml_amount_currency line * (- 1), aml_move_id = move,
      aml_check_deposit_id = None, aml_reconciled = False\<rparr>"

definition offset_lines_of ::
  "nat \<Rightarrow> nat \<Rightarrow> 'a::{zero,one,plus,times,uminus,linorder} account_move_line list \<Rightarrow> 'a account_move_line list" where
  "offset_lines_of move n ls = map (\<lambda>(k, l). offset_line move k l) (zip [n ..< n + length ls] ls)"

definition counterpart_line ::
  "nat \<Rightarrow> nat \<Rightarrow> 'a::{zero,plus} deposit \<Rightarrow> nat \<Rightarrow> 'a account_move_line list
   \<Rightarrow> 'a account_move_line" where
  "counterpart_line move k d account ls =
     \<lparr>aml_id = k, aml_name = None, aml_ref = None,
      aml_debit = fsum (map aml_debit ls), aml_credit = 0,
      aml_account_id = Some account, aml_partner_id = None,
      aml_currency_id = Some (dep_currency_id d),
      aml_amount_currency = fsum (map aml_amount_currency ls), aml_move_id = move,
      aml_check_deposit_id = None, aml_reconciled = False\<rparr>"

definition pair_ids :: "(nat \<times> nat) list \<Rightarrow> nat list" where
  "pair_ids ps = concat (map (\<lambda>p. [fst p, snd p]) ps)"

text \<open>
  The database after \<^verbatim>\<open>validate_deposit\<close> has run through for the deposit \<open>i\<close>, whose
  record is \<open>d\<close> and whose counterpart account is \<open>a\<close> (lemma \<open>validate_one_eq\<close>).
\<close>

definition validated :: "'a::{zero,one,plus,times,uminus,linorder} env \<Rightarrow> nat \<Rightarrow> 'a deposit \<Rightarrow> nat \<Rightarrow> 'a env" where
  "validated e i d a =
     e\<lparr>env_moves :=
         map (\<lambda>mv. if am_id mv = next_move_id e then mv\<lparr>am_state := Posted\<rparr> else mv)
           (env_moves e @
            [\<lparr>am_id = next_move_id e, am_journal_id = dep_journal_id d,
              am_date = dep_deposit_date d, am_ref = ''Check Deposit '' @ dep_name d,
              am_company_id = dep_company_id d, am_state = Draft\<rparr>]),
       env_lines :=
         set_reconciled True
           (pair_ids (zip (map aml_id (check_payment_ids e i))
                        [next_line_id e ..< next_line_id e + length (check_payment_ids e i)]))
           (env_lines e @ offset_lines_of (next_move_id e) (next_line_id e) (check_payment_ids e i) @
            [counterpart_line (next_move_id e) (next_line_id e + length (check_payment_ids e i)) d a
               (check_payment_ids e i)]),
       env_deposits :=
         map (\<lambda>x. if dep_id x = i then x\<lparr>dep_state := DepDone, dep_move_id := Some (next_move_id e)\<rparr> else x)
           (env_deposits e),
       next_move_id := Suc (next_move_id e),
       next_line_id := Suc (next_line_id e + length (check_payment_ids e i))\<rparr>"

text \<open>
  Integrity of the database, as the host keeps it: the ids in use lie below the
  sequences that hand out new ones, and no two lines share an id.
\<close>

definition db_ok :: "'a env \<Rightarrow> bool" where
  "db_ok e =
     ((\<forall>mv \<in> set (env_moves e). am_id mv < next_move_id e)
      \<and> (\<forall>l \<in> set (env_lines e). aml_id l < next_line_id e \<and> aml_move_id l < next_move_id e)
      \<and> distinct (map aml_id (env_lines e))
      \<and> (\<forall>d \<in> set (env_deposits e).
            dep_id d < next_deposit_id e
            \<and> (\<forall>m \<in> set_option (dep_move_id d). m < next_move_id e)))"

subsection \<open>The workflow and its invariant\<close>

text \<open>
  No move is the move of two deposits, and a done deposit has a posted move and only
  reconciled check lines.
\<close>

definition move_unshared :: "'a env \<Rightarrow> bool" where
  "move_unshared e =
     (\<forall>d1 \<in> set (env_deposits e). \<forall>d2 \<in> set (env_deposits e).
        \<forall>m \<in> set_option (dep_move_id d1). dep_move_id d2 = Some m \<longrightarrow> dep_id d1 = dep_id d2)"

definition done_ok :: "'a env \<Rightarrow> bool" where
  "done_ok e =
     (\<forall>d \<in> set (env_deposits e). dep_state d = DepDone \<longrightarrow>
        (\<exists>mv \<in> set (env_moves e). dep_move_id d = Some (am_id mv) \<and> am_state mv = Posted)
        \<and> (\<forall>l \<in> set (check_payment_ids e (dep_id d)). aml_reconciled l))"

definition workflow_inv :: "'a env \<Rightarrow> bool" where
  "workflow_inv e = (db_ok e \<and> move_unshared e \<and> done_ok e)"

text \<open>
  The databases that the workflow operations reach from a consistent database in which
  no deposit has been validated yet. Only a run that returns changes the database. The
  first argument says which values \<open>create\<close> is called with: any
  (\<open>any_vals\<close>), or those that make the new deposit a draft without a move
  (\<open>draft_vals\<close>), as the forms of the client do, where \<^verbatim>\<open>state\<close> and \<^verbatim>\<open>move_id\<close>
  are read-only.
\<close>

definition any_vals :: "create_vals \<Rightarrow> bool" where
  "any_vals vals = True"

definition draft_vals :: "create_vals \<Rightarrow> bool" where
  "draft_vals vals =
     ((case cv_state vals of None \<Rightarrow> DepDraft | Some s \<Rightarrow> s) = DepDraft \<and> cv_move_id vals = None)"

inductive reachable ::
  "(create_vals \<Rightarrow> bool) \<Rightarrow> 'a::{zero,one,plus,times,uminus,linorder} env \<Rightarrow> bool"
  for admits :: "create_vals \<Rightarrow> bool" where
  initial:
    "db_ok e \<Longrightarrow> \<forall>d \<in> set (env_deposits e). dep_state d = DepDraft \<and> dep_move_id d = None \<Longrightarrow>
     reachable admits e"
| by_create: "reachable admits e \<Longrightarrow> admits vals \<Longrightarrow> create e vals = Inr e' \<Longrightarrow> reachable admits e'"
| by_validate_deposit: "reachable admits e \<Longrightarrow> validate_deposit e ids = Inr e' \<Longrightarrow> reachable admits e'"
| by_backtodraft: "reachable admits e \<Longrightarrow> backtodraft e ids = Inr e' \<Longrightarrow> reachable admits e'"
| by_unlink: "reachable admits e \<Longrightarrow> unlink e ids = Inr e' \<Longrightarrow> reachable admits e'"

subsection \<open>The arithmetic of the amounts\<close>

text \<open>
  The one law of addition that statements about the balance of a move rely on: adding
  zero, on either side, gives the other number back. Floating-point addition has it
  (the sum of \<open>x\<close> and zero is exact); it is not associative, and nothing here takes it
  to be.
\<close>

definition zero_neutral :: "'a::{zero,plus} itself \<Rightarrow> bool" where
  "zero_neutral T = (\<forall>x :: 'a. 0 + x = x \<and> x + 0 = x)"

text \<open>
  An arithmetic that is not exact, to run the operations on: whole numbers, where a sum
  or a product of magnitude 100 or more keeps its tens only. Adding zero is the
  identity, and the addition is not associative: \<open>(100 + 5) + 5\<close> is 100 and
  \<open>100 + (5 + 5)\<close> is 110.
\<close>

datatype coarse = Coarse (units: int)

definition round_amount :: "int \<Rightarrow> int" where
  "round_amount x = (if \<bar>x\<bar> < 100 then x else 10 * (x div 10))"

instantiation coarse :: "{zero,one,plus,times,uminus,linorder}"
begin

definition zero_coarse :: coarse where
  "zero_coarse = Coarse 0"

definition one_coarse :: coarse where
  "one_coarse = Coarse 1"

definition plus_coarse :: "coarse \<Rightarrow> coarse \<Rightarrow> coarse" where
  "plus_coarse x y =
     (if units x = 0 then y else if units y = 0 then x
      else Coarse (round_amount (units x + units y)))"

definition times_coarse :: "coarse \<Rightarrow> coarse \<Rightarrow> coarse" where
  "times_coarse x y = Coarse (round_amount (units x * units y))"

definition uminus_coarse :: "coarse \<Rightarrow> coarse" where
  "uminus_coarse x = Coarse (- units x)"

definition less_eq_coarse :: "coarse \<Rightarrow> coarse \<Rightarrow> bool" where
  "less_eq_coarse x y = (units x \<le> units y)"

definition less_coarse :: "coarse \<Rightarrow> coarse \<Rightarrow> bool" where
  "less_coarse x y = (units x < units y)"

instance
proof
  fix x y z :: coarse
  show "(x < y) = (x \<le> y \<and> \<not> y \<le> x)"
    by (auto simp: less_eq_coarse_def less_coarse_def)
  show "x \<le> x" by (simp add: less_eq_coarse_def)
  show "x \<le> y \<Longrightarrow> y \<le> z \<Longrightarrow> x \<le> z" by (simp add: less_eq_coarse_def)
  show "x \<le> y \<Longrightarrow> y \<le> x \<Longrightarrow> x = y"
    by (cases x; cases y) (simp add: less_eq_coarse_def)
  show "x \<le> y \<or> y \<le> x" by (auto simp: less_eq_coarse_def)
qed

end

subsection \<open>A small database\<close>

text \<open>
  One company in euros, a check journal (1) and a bank journal (2), one posted payment
  move with two check lines attached to the draft deposit 1. The amounts of the small
  database are rational numbers.
\<close>

definition demo_journals :: "nat \<Rightarrow> journal" where
  "demo_journals j =
     (if j = 2
      then \<lparr>jr_company_id = 1, jr_currency_id = None,
            jr_inbound_payment_method_line_ids =
              [\<lparr>pml_payment_method_code = ''electronic'', pml_payment_account_id = Some 31\<rparr>,
               \<lparr>pml_payment_method_code = ''manual'', pml_payment_account_id = Some 30\<rparr>],
            jr_update_posted = True\<rparr>
      else \<lparr>jr_company_id = 1, jr_currency_id = None,
            jr_inbound_payment_method_line_ids =
              [\<lparr>pml_payment_method_code = ''manual'', pml_payment_account_id = Some 10\<rparr>],
            jr_update_posted = True\<rparr>)"

definition demo_check :: "nat \<Rightarrow> rat \<Rightarrow> string \<Rightarrow> rat account_move_line" where
  "demo_check i amount ref =
     \<lparr>aml_id = i, aml_name = None, aml_ref = Some ref, aml_debit = amount, aml_credit = 0,
      aml_account_id = Some 10, aml_partner_id = Some 7, aml_currency_id = Some 1,
      aml_amount_currency = amount, aml_move_id = 1, aml_check_deposit_id = Some 1,
      aml_reconciled = False\<rparr>"

definition demo_deposit :: "rat deposit" where
  "demo_deposit =
     \<lparr>dep_id = 1, dep_name = ''DEP1'', dep_deposit_date = 101, dep_journal_id = 1,
      dep_in_hand_check_account_id = Some 10, dep_currency_id = 1,
      dep_state = DepDraft, dep_move_id = None, dep_bank_journal_id = 2,
      dep_company_id = 1, dep_total_amount = 0, dep_check_count = 0\<rparr>"

definition demo_env :: "rat env" where
  "demo_env =
     \<lparr>env_moves = [\<lparr>am_id = 1, am_journal_id = 1, am_date = 100, am_ref = ''PAY'',
                    am_company_id = 1, am_state = Posted\<rparr>],
      env_lines = [demo_check 1 100 ''CHK1'', demo_check 2 50 ''CHK2''],
      env_deposits = [demo_deposit],
      next_move_id = 2, next_line_id = 3, next_deposit_id = 2,
      seq_next = (\<lambda>c. 1), chatter = [],
      journals = demo_journals,
      companies = (\<lambda>c. \<lparr>comp_currency_id = 1,
                          comp_account_journal_payment_debit_account_id = Some 20,
                          comp_display_name = ''YourCompany''\<rparr>),
      currencies = (\<lambda>c. \<lparr>cur_name = ''EUR'', cur_display_name = ''EUR''\<rparr>),
      account_display_name = (\<lambda>a. ''Checks in hand''),
      seq_render = (\<lambda>c n d. ''DEP/'' @ replicate n (CHR ''I'')),
      env_company = 1, today = 101, rg_sums_amount_currency = True\<rparr>"

text \<open>
  The same database with amounts of the coarse arithmetic: two check lines of 95 and 7.
\<close>

definition coarse_check :: "nat \<Rightarrow> int \<Rightarrow> string \<Rightarrow> coarse account_move_line" where
  "coarse_check i amount ref =
     \<lparr>aml_id = i, aml_name = None, aml_ref = Some ref, aml_debit = Coarse amount, aml_credit = 0,
      aml_account_id = Some 10, aml_partner_id = Some 7, aml_currency_id = Some 1,
      aml_amount_currency = Coarse amount, aml_move_id = 1, aml_check_deposit_id = Some 1,
      aml_reconciled = False\<rparr>"

definition coarse_deposit :: "coarse deposit" where
  "coarse_deposit =
     \<lparr>dep_id = 1, dep_name = ''DEP1'', dep_deposit_date = 101, dep_journal_id = 1,
      dep_in_hand_check_account_id = Some 10, dep_currency_id = 1,
      dep_state = DepDraft, dep_move_id = None, dep_bank_journal_id = 2,
      dep_company_id = 1, dep_total_amount = 0, dep_check_count = 0\<rparr>"

definition coarse_env :: "coarse env" where
  "coarse_env =
     \<lparr>env_moves = env_moves demo_env,
      env_lines = [coarse_check 1 95 ''CHK1'', coarse_check 2 7 ''CHK2''],
      env_deposits = [coarse_deposit],
      next_move_id = 2, next_line_id = 3, next_deposit_id = 2,
      seq_next = seq_next demo_env, chatter = [],
      journals = demo_journals, companies = companies demo_env,
      currencies = currencies demo_env,
      account_display_name = account_display_name demo_env,
      seq_render = seq_render demo_env,
      env_company = 1, today = 101, rg_sums_amount_currency = True\<rparr>"

text \<open>The same database with a single check line of amount zero.\<close>

definition demo_env_zero :: "rat env" where
  "demo_env_zero = demo_env\<lparr>env_lines := [demo_check 1 0 ''CHK1'']\<rparr>"

text \<open>
  A database whose bank journal has no payment method line, and one where in addition
  the company names no outstanding-receipts account.
\<close>

definition no_manual :: "'a env \<Rightarrow> 'a env" where
  "no_manual e =
     e\<lparr>journals := (\<lambda>j. \<lparr>jr_company_id = 1, jr_currency_id = None,
                         jr_inbound_payment_method_line_ids = [], jr_update_posted = True\<rparr>)\<rparr>"

definition no_account :: "'a env \<Rightarrow> 'a env" where
  "no_account e =
     (no_manual e)\<lparr>companies := (\<lambda>c. \<lparr>comp_currency_id = 1,
                          comp_account_journal_payment_debit_account_id = None,
                          comp_display_name = ''YourCompany''\<rparr>)\<rparr>"

text \<open>The same database after deposit 1 was validated elsewhere, with a second, draft deposit.\<close>

definition demo_done_deposit :: "rat deposit" where
  "demo_done_deposit = demo_deposit\<lparr>dep_state := DepDone, dep_move_id := Some 1\<rparr>"

definition demo_draft_deposit :: "rat deposit" where
  "demo_draft_deposit = demo_deposit\<lparr>dep_id := 2, dep_name := ''DEP2''\<rparr>"

definition demo_env_done :: "rat env" where
  "demo_env_done =
     demo_env\<lparr>env_deposits := [demo_done_deposit, demo_draft_deposit], next_deposit_id := 3\<rparr>"

text \<open>The small database with the second check line in another currency.\<close>

definition demo_env_usd :: "rat env" where
  "demo_env_usd =
     demo_env\<lparr>env_lines := [demo_check 1 100 ''CHK1'',
                             (demo_check 2 50 ''CHK2'')\<lparr>aml_currency_id := Some 2\<rparr>],
              currencies := (\<lambda>c. if c = 2 then \<lparr>cur_name = ''USD'', cur_display_name = ''USD''\<rparr>
                                   else \<lparr>cur_name = ''EUR'', cur_display_name = ''EUR''\<rparr>)\<rparr>"

text \<open>
  The small database when the company keeps its books in another currency (2): the
  debits are in the company's currency, the amounts in currency in the deposit's.
\<close>

definition demo_env_foreign :: "rat env" where
  "demo_env_foreign =
     demo_env\<lparr>env_lines := [(demo_check 1 110 ''CHK1'')\<lparr>aml_amount_currency := 100\<rparr>,
                             (demo_check 2 55 ''CHK2'')\<lparr>aml_amount_currency := 50\<rparr>],
              companies := (\<lambda>c. \<lparr>comp_currency_id = 2,
                                  comp_account_journal_payment_debit_account_id = Some 20,
                                  comp_display_name = ''YourCompany''\<rparr>)\<rparr>"

text \<open>The small database with the first check line not yet attached to a deposit.\<close>

definition demo_env_pending :: "rat env" where
  "demo_env_pending =
     demo_env\<lparr>env_lines := [(demo_check 1 100 ''CHK1'')\<lparr>aml_check_deposit_id := None\<rparr>,
                             demo_check 2 50 ''CHK2'']\<rparr>"

text \<open>
  The database after the move \<open>m\<close> has been set back to draft, and the database after
  \<^verbatim>\<open>backtodraft\<close> has run through for the deposit \<open>i\<close> whose move is \<open>m\<close> (lemma
  \<open>backtodraft_one_move\<close>).
\<close>

definition unposted :: "'a env \<Rightarrow> nat \<Rightarrow> 'a env" where
  "unposted e m =
     e\<lparr>env_moves := map (\<lambda>mv. if am_id mv = m then mv\<lparr>am_state := Draft\<rparr> else mv) (env_moves e)\<rparr>"

definition reverted :: "'a env \<Rightarrow> nat \<Rightarrow> nat \<Rightarrow> 'a env" where
  "reverted e i m =
     e\<lparr>env_moves := filter (\<lambda>mv. am_id mv \<noteq> m) (env_moves e),
       env_lines :=
         filter (\<lambda>l. aml_move_id l \<noteq> m)
           (set_reconciled False (map aml_id (check_payment_ids e i)) (env_lines e)),
       env_deposits :=
         map (\<lambda>x. if dep_id x = i then x\<lparr>dep_state := DepDraft\<rparr> else x)
           (map (\<lambda>x. if dep_move_id x = Some m then x\<lparr>dep_move_id := None\<rparr> else x)
              (env_deposits e))\<rparr>"

text \<open>
  The small database after deposit 1 has been validated, and a database whose journals
  do not allow changing posted entries.
\<close>

definition demo_env_validated :: "rat env" where
  "demo_env_validated = validated demo_env 1 demo_deposit 30"

definition locked :: "'a env \<Rightarrow> 'a env" where
  "locked e = e\<lparr>journals := (\<lambda>j. (journals e j)\<lparr>jr_update_posted := False\<rparr>)\<rparr>"

text \<open>
  Values for a second deposit that takes over the second check line, and the same
  values with the state given as done.
\<close>

definition demo_vals :: create_vals where
  "demo_vals =
     \<lparr>cv_name = None, cv_company_id = Some 1, cv_deposit_date = None, cv_journal_id = Some 1,
      cv_currency_id = Some 1, cv_bank_journal_id = Some 2, cv_check_payment_ids = [2],
      cv_state = None, cv_move_id = None\<rparr>"

definition demo_vals_done :: create_vals where
  "demo_vals_done = demo_vals\<lparr>cv_state := Some DepDone\<rparr>"

definition demo_env_created_done :: "rat env" where
  "demo_env_created_done = commit demo_env (create demo_env demo_vals_done)"

text \<open>
  Values for a second deposit, without lines, that name the move of the validated
  deposit 1 as its own; the database after it has been created next to the validated
  deposit, and after it has then been set back to draft.
\<close>

definition demo_vals_move :: create_vals where
  "demo_vals_move = demo_vals\<lparr>cv_check_payment_ids := [], cv_move_id := Some 2\<rparr>"

definition demo_env_shared :: "rat env" where
  "demo_env_shared = commit demo_env_validated (create demo_env_validated demo_vals_move)"

definition demo_env_orphaned :: "rat env" where
  "demo_env_orphaned = commit demo_env_shared (backtodraft demo_env_shared [2])"

text \<open>The id, the state and the move of a deposit.\<close>

definition dep_key :: "'a deposit \<Rightarrow> nat \<times> deposit_state \<times> nat option" where
  "dep_key d = (dep_id d, dep_state d, dep_move_id d)"

text \<open>
  The small database of the company that keeps its books in another currency, on a host
  whose grouped query does not aggregate \<^verbatim>\<open>amount_currency\<close>.
\<close>

definition demo_env_nosum :: "rat env" where
  "demo_env_nosum = demo_env_foreign\<lparr>rg_sums_amount_currency := False\<rparr>"

section \<open>The effect of validate_deposit\<close>

lemma upt_add_Suc: "[n ..< Suc (n + k)] = n # [Suc n ..< Suc (n + k)]"
  by (simp add: upt_conv_Cons del: upt_Suc)

lemma offset_lines_of_Nil [simp]: "offset_lines_of move n [] = []"
  by (simp add: offset_lines_of_def)

lemma offset_lines_of_Cons:
  "offset_lines_of move n (l # ls) = offset_line move n l # offset_lines_of move (Suc n) ls"
  by (simp add: offset_lines_of_def upt_add_Suc del: upt_Suc)

lemma length_offset_lines_of [simp]: "length (offset_lines_of move n ls) = length ls"
  by (simp add: offset_lines_of_def)

lemma offset_step:
  "aml_debit l > 0 \<Longrightarrow>
   offset_lines e m (l # ls) td tac rc =
   offset_lines (e\<lparr>env_lines := env_lines e @ [offset_line m (next_line_id e) l],
                   next_line_id := Suc (next_line_id e)\<rparr>) m ls
     (td + aml_debit l) (tac + aml_amount_currency l) (rc @ [(aml_id l, next_line_id e)])"
  by (simp add: Let_def prepare_move_line_vals_def aml_create_def new_line_def offset_line_def)

lemma offset_lines_ok:
  "\<forall>l \<in> set ls. aml_debit l > 0 \<Longrightarrow>
   offset_lines e m ls td tac rc =
   Inr (e\<lparr>env_lines := env_lines e @ offset_lines_of m (next_line_id e) ls,
           next_line_id := next_line_id e + length ls\<rparr>,
        foldl (+) td (map aml_debit ls), foldl (+) tac (map aml_amount_currency ls),
        rc @ zip (map aml_id ls) [next_line_id e ..< next_line_id e + length ls])"
proof (induction ls arbitrary: e td tac rc)
  case Nil
  then show ?case by simp
next
  case (Cons l ls)
  then have pos: "aml_debit l > 0" and rest: "\<forall>x \<in> set ls. aml_debit x > 0" by simp_all
  show ?case
    unfolding offset_step [OF pos] Cons.IH [OF rest]
    by (simp add: offset_lines_of_Cons upt_add_Suc del: upt_Suc)
qed

lemma offset_lines_err:
  "\<exists>l \<in> set ls. \<not> aml_debit l > 0 \<Longrightarrow>
   offset_lines e m ls td tac rc = Inl (AssertionError ''Debit must have a value'')"
proof (induction ls arbitrary: e td tac rc)
  case Nil
  then show ?case by simp
next
  case (Cons l ls)
  show ?case
  proof (cases "aml_debit l > 0")
    case True
    with Cons.prems have "\<exists>x \<in> set ls. \<not> aml_debit x > 0" by auto
    then show ?thesis unfolding offset_step [OF True] by (rule Cons.IH)
  next
    case False
    then show ?thesis by (simp add: Let_def prepare_move_line_vals_def)
  qed
qed

lemma set_reconciled_append:
  "set_reconciled b ys (set_reconciled b xs ls) = set_reconciled b (xs @ ys) ls"
  by (induction ls) (auto simp: set_reconciled_def)

lemma set_reconciled_Nil [simp]: "set_reconciled b [] ls = ls"
  by (simp add: set_reconciled_def)

lemma foldl_reconcile:
  "foldl reconcile e ps = e\<lparr>env_lines := set_reconciled True (pair_ids ps) (env_lines e)\<rparr>"
proof (induction ps arbitrary: e)
  case Nil
  then show ?case by (simp add: pair_ids_def)
next
  case (Cons p ps)
  show ?case
    unfolding foldl_Cons Cons.IH
    by (simp add: reconcile_def set_reconciled_append pair_ids_def)
qed

lemma offset_lines_of_debit:
  "map aml_debit (offset_lines_of m n ls) = replicate (length ls) 0"
  by (induction ls arbitrary: n) (simp_all add: offset_lines_of_Cons offset_line_def)

lemma offset_lines_of_credit:
  "map aml_credit (offset_lines_of m n ls) = map aml_debit ls"
  by (induction ls arbitrary: n) (simp_all add: offset_lines_of_Cons offset_line_def)

lemma fsum_zeros:
  assumes "zero_neutral TYPE('a::{zero,plus})"
  shows "fsum (replicate k (0::'a)) = 0"
proof -
  from assms have z: "(0::'a) + 0 = 0" by (simp add: zero_neutral_def)
  have "foldl (+) (0::'a) (replicate k 0) = 0"
    by (induction k) (simp_all add: z)
  then show ?thesis by (simp add: fsum_def)
qed

lemma fsum_snoc: "fsum (xs @ [x]) = fsum xs + x"
  by (simp add: fsum_def)

lemma offset_lines_of_move: "filter (\<lambda>l. aml_move_id l = m) (offset_lines_of m n ls) = offset_lines_of m n ls"
  by (induction ls arbitrary: n) (simp_all add: offset_lines_of_Cons offset_line_def)

lemma fresh_move_lines:
  "\<forall>l \<in> set ls. aml_move_id l \<noteq> m \<Longrightarrow> filter (\<lambda>l. aml_move_id l = m) ls = []"
  by (induction ls) simp_all

lemma counterpart_account_cong:
  "journals e' = journals e \<Longrightarrow> companies e' = companies e \<Longrightarrow>
   counterpart_account e' d = counterpart_account e d"
  by (simp add: counterpart_account_def cong: option.case_cong)

lemma set_reconciled_amounts:
  "map aml_debit (filter (\<lambda>l. aml_move_id l = m) (set_reconciled b ids ls)) =
     map aml_debit (filter (\<lambda>l. aml_move_id l = m) ls)"
  "map aml_credit (filter (\<lambda>l. aml_move_id l = m) (set_reconciled b ids ls)) =
     map aml_credit (filter (\<lambda>l. aml_move_id l = m) ls)"
  by (induction ls) (simp_all add: set_reconciled_def)

lemma balanced_lines_cong:
  "env_lines e' = set_reconciled b ids (env_lines e) \<Longrightarrow> balanced e' m = balanced e m"
  by (simp add: balanced_def move_lines_def set_reconciled_amounts)

lemma validate_one_missing:
  "get_deposit e i = None \<Longrightarrow> validate_one e i = Inl MissingError"
  by (simp add: validate_one_def)

lemma validate_one_assert:
  assumes dep: "get_deposit e i = Some d"
    and neg: "\<exists>l \<in> set (check_payment_ids e i). \<not> aml_debit l > 0"
  shows "validate_one e i = Inl (AssertionError ''Debit must have a value'')"
proof -
  have cp: "check_payment_ids (fst (am_create e (prepare_account_move_vals d))) i =
      check_payment_ids e i"
    by (simp add: am_create_def check_payment_ids_def)
  have "offset_lines (fst (am_create e (prepare_account_move_vals d)))
          (snd (am_create e (prepare_account_move_vals d))) (check_payment_ids e i) 0 0 [] =
        Inl (AssertionError ''Debit must have a value'')"
    using neg by (rule offset_lines_err)
  then show ?thesis
    unfolding validate_one_def
    by (simp add: dep cp split_beta del: offset_lines.simps)
qed

lemma validate_one_eq:
  assumes dep: "get_deposit e i = Some d"
    and pos: "\<forall>l \<in> set (check_payment_ids e i). aml_debit l > 0"
  shows "validate_one e i =
     (case counterpart_account e d of
        None \<Rightarrow> Inl (UserError (MissingOutstandingReceiptsAccount
                         (comp_display_name (companies e (dep_company_id d)))))
      | Some a \<Rightarrow>
          if balanced (validated e i d a) (next_move_id e) then Inr (validated e i d a)
          else Inl (UserError UnbalancedEntry))"
proof -
  define m where "m = next_move_id e"
  define n where "n = next_line_id e"
  define cs where "cs = check_payment_ids e i"
  define e1 where "e1 = e\<lparr>env_moves := env_moves e @
          [\<lparr>am_id = m, am_journal_id = dep_journal_id d, am_date = dep_deposit_date d,
            am_ref = ''Check Deposit '' @ dep_name d, am_company_id = dep_company_id d,
            am_state = Draft\<rparr>],
        next_move_id := Suc m\<rparr>"
  define e2 where "e2 = e1\<lparr>env_lines := env_lines e1 @ offset_lines_of m n cs,
        next_line_id := n + length cs\<rparr>"
  have am: "am_create e (prepare_account_move_vals d) = (e1, m)"
    by (simp add: am_create_def prepare_account_move_vals_def e1_def m_def)
  have cp: "check_payment_ids e1 i = cs"
    by (simp add: e1_def cs_def check_payment_ids_def)
  have n1: "next_line_id e1 = n"
    by (simp add: e1_def n_def)
  have ol: "offset_lines e1 m cs 0 0 [] =
      Inr (e2, fsum (map aml_debit cs), fsum (map aml_amount_currency cs),
           zip (map aml_id cs) [n ..< n + length cs])"
    using pos by (simp add: offset_lines_ok cs_def n1 e2_def fsum_def)
  have acc2: "counterpart_account e2 d = counterpart_account e d"
    using counterpart_account_cong [of e2 e d] by (simp add: e2_def e1_def)
  have comp2: "companies e2 = companies e"
    by (simp add: e2_def e1_def)
  show ?thesis
  proof (cases "counterpart_account e d")
    case None
    then show ?thesis
      unfolding validate_one_def
      by (simp add: dep am cp ol prepare_counterpart_move_lines_vals_def acc2 comp2
          del: offset_lines.simps)
  next
    case (Some a)
    define e3 where "e3 = e2\<lparr>env_lines := env_lines e2 @ [counterpart_line m (n + length cs) d a cs],
        next_line_id := Suc (n + length cs)\<rparr>"
    have pc: "prepare_counterpart_move_lines_vals e2 d (fsum (map aml_debit cs))
        (fsum (map aml_amount_currency cs)) =
      Inr \<lparr>lv_name = None, lv_credit = 0, lv_debit = fsum (map aml_debit cs),
           lv_account_id = Some a, lv_partner_id = None,
           lv_currency_id = Some (dep_currency_id d),
           lv_amount_currency = fsum (map aml_amount_currency cs), lv_move_id = None\<rparr>"
      by (simp add: prepare_counterpart_move_lines_vals_def acc2 Some)
    have e3: "e2\<lparr>env_lines := env_lines e2 @
            [new_line (next_line_id e2) m
               \<lparr>lv_name = None, lv_credit = 0, lv_debit = fsum (map aml_debit cs),
                lv_account_id = Some a, lv_partner_id = None,
                lv_currency_id = Some (dep_currency_id d),
                lv_amount_currency = fsum (map aml_amount_currency cs),
                lv_move_id = Some m\<rparr>],
          next_line_id := Suc (next_line_id e2)\<rparr> = e3"
      by (simp add: e3_def e2_def new_line_def counterpart_line_def)
    have ac: "aml_create True e2
        (\<lparr>lv_name = None, lv_credit = 0, lv_debit = fsum (map aml_debit cs),
          lv_account_id = Some a, lv_partner_id = None,
          lv_currency_id = Some (dep_currency_id d),
          lv_amount_currency = fsum (map aml_amount_currency cs), lv_move_id = Some m\<rparr>)
       = (if balanced e3 m then Inr (e3, n + length cs) else Inl (UserError UnbalancedEntry))"
      using e3 by (simp add: aml_create_def Let_def) (simp add: e2_def)
    have fin: "foldl reconcile
        (deposit_write (action_post e3 m) i (\<lambda>d. d\<lparr>dep_state := DepDone, dep_move_id := Some m\<rparr>))
        (zip (map aml_id cs) [n ..< n + length cs]) = validated e i d a"
      by (simp add: foldl_reconcile deposit_write_def action_post_def validated_def e3_def e2_def
          e1_def m_def n_def cs_def)
    have bal: "balanced (validated e i d a) m = balanced e3 m"
      by (rule balanced_lines_cong [where b = True and ids = "pair_ids (zip (map aml_id cs) [n ..< n + length cs])"])
        (simp add: validated_def e3_def e2_def e1_def m_def n_def cs_def)
    show ?thesis
      unfolding validate_one_def
      by (simp add: dep am cp ol pc ac fin Some bal m_def [symmetric] del: offset_lines.simps)
  qed
qed

lemma validated_amounts:
  assumes fresh: "\<forall>l \<in> set (env_lines e). aml_move_id l \<noteq> next_move_id e"
  shows "map aml_debit (move_lines (validated e i d a) (next_move_id e)) =
           replicate (length (check_payment_ids e i)) 0 @ [fsum (map aml_debit (check_payment_ids e i))]"
    and "map aml_credit (move_lines (validated e i d a) (next_move_id e)) =
           map aml_debit (check_payment_ids e i) @ [0]"
  using fresh
  by (simp_all add: move_lines_def validated_def set_reconciled_amounts fresh_move_lines
      offset_lines_of_move offset_lines_of_debit offset_lines_of_credit counterpart_line_def)

lemma validated_balanced:
  fixes e :: "'a::{zero,one,plus,times,uminus,linorder} env"
  assumes fresh: "\<forall>l \<in> set (env_lines e). aml_move_id l \<noteq> next_move_id e"
    and laws: "zero_neutral TYPE('a)"
  shows "balanced (validated e i d a) (next_move_id e)"
proof -
  let ?T = "fsum (map aml_debit (check_payment_ids e i))"
  from laws have l: "0 + ?T = ?T" and r: "?T + 0 = ?T"
    by (simp_all add: zero_neutral_def)
  show ?thesis
    unfolding balanced_def validated_amounts [OF fresh]
    by (simp only: fsum_snoc fsum_zeros [OF laws] l r)
qed

lemma validate_one_ok:
  fixes e :: "'a::{zero,one,plus,times,uminus,linorder} env"
  assumes dep: "get_deposit e i = Some d"
    and pos: "\<forall>l \<in> set (check_payment_ids e i). aml_debit l > 0"
    and acc: "counterpart_account e d = Some a"
    and fresh: "\<forall>l \<in> set (env_lines e). aml_move_id l \<noteq> next_move_id e"
    and laws: "zero_neutral TYPE('a)"
  shows "validate_one e i = Inr (validated e i d a)"
  by (simp add: validate_one_eq [OF dep pos] acc validated_balanced [OF fresh laws])

lemma validate_one_Inr:
  assumes "validate_one e i = Inr e'"
  obtains d a where "get_deposit e i = Some d" "counterpart_account e d = Some a"
    "\<forall>l \<in> set (check_payment_ids e i). aml_debit l > 0" "e' = validated e i d a"
proof (cases "get_deposit e i")
  case None
  with assms show ?thesis by (simp add: validate_one_missing)
next
  case (Some d)
  show ?thesis
  proof (cases "\<forall>l \<in> set (check_payment_ids e i). aml_debit l > 0")
    case False
    with Some assms show ?thesis by (simp add: validate_one_assert)
  next
    case True
    from assms show ?thesis
      unfolding validate_one_eq [OF Some True]
      by (cases "counterpart_account e d") (auto split: if_splits intro: that [OF Some _ True])
  qed
qed

lemma db_ok_fresh: "db_ok e \<Longrightarrow> \<forall>l \<in> set (env_lines e). aml_move_id l \<noteq> next_move_id e"
  by (auto simp: db_ok_def)

lemma db_ok_fresh_move: "db_ok e \<Longrightarrow> \<forall>mv \<in> set (env_moves e). am_id mv \<noteq> next_move_id e"
  by (auto simp: db_ok_def)

lemma filter_set_reconciled_move:
  "filter (\<lambda>l. aml_move_id l = m) (set_reconciled b ids ls) =
   set_reconciled b ids (filter (\<lambda>l. aml_move_id l = m) ls)"
  by (induction ls) (simp_all add: set_reconciled_def)

lemma filter_set_reconciled_deposit:
  "filter (\<lambda>l. aml_check_deposit_id l = j) (set_reconciled b ids ls) =
   set_reconciled b ids (filter (\<lambda>l. aml_check_deposit_id l = j) ls)"
  by (induction ls) (simp_all add: set_reconciled_def)

lemma offset_lines_of_unattached:
  "filter (\<lambda>l. aml_check_deposit_id l = Some j) (offset_lines_of m n ls) = []"
  by (induction ls arbitrary: n) (simp_all add: offset_lines_of_Cons offset_line_def)

lemma check_payment_ids_validated:
  "check_payment_ids (validated e i d a) j =
   set_reconciled True
     (pair_ids (zip (map aml_id (check_payment_ids e i))
                  [next_line_id e ..< next_line_id e + length (check_payment_ids e i)]))
     (check_payment_ids e j)"
  by (simp add: check_payment_ids_def validated_def filter_set_reconciled_deposit
      offset_lines_of_unattached counterpart_line_def)

lemma move_lines_validated:
  assumes "\<forall>l \<in> set (env_lines e). aml_move_id l \<noteq> next_move_id e"
  shows "move_lines (validated e i d a) (next_move_id e) =
     set_reconciled True
       (pair_ids (zip (map aml_id (check_payment_ids e i))
                    [next_line_id e ..< next_line_id e + length (check_payment_ids e i)]))
       (offset_lines_of (next_move_id e) (next_line_id e) (check_payment_ids e i) @
        [counterpart_line (next_move_id e) (next_line_id e + length (check_payment_ids e i)) d a
           (check_payment_ids e i)])"
  using assms
  by (simp add: move_lines_def validated_def filter_set_reconciled_move fresh_move_lines
      offset_lines_of_move counterpart_line_def)

lemma env_moves_validated:
  assumes "\<forall>mv \<in> set (env_moves e). am_id mv \<noteq> next_move_id e"
  shows "env_moves (validated e i d a) =
     env_moves e @
     [\<lparr>am_id = next_move_id e, am_journal_id = dep_journal_id d,
       am_date = dep_deposit_date d, am_ref = ''Check Deposit '' @ dep_name d,
       am_company_id = dep_company_id d, am_state = Posted\<rparr>]"
proof -
  have "map (\<lambda>mv. if am_id mv = next_move_id e then mv\<lparr>am_state := Posted\<rparr> else mv) (env_moves e)
      = env_moves e"
    using assms by (simp add: map_idI)
  then show ?thesis by (simp add: validated_def)
qed

lemma offset_lines_of_nth:
  "k < length ls \<Longrightarrow> offset_lines_of m n ls ! k = offset_line m (n + k) (ls ! k)"
  by (simp add: offset_lines_of_def)

lemma set_reconciled_length [simp]: "length (set_reconciled b ids ls) = length ls"
  by (simp add: set_reconciled_def)

lemma set_reconciled_fields:
  "map aml_debit (set_reconciled b ids ls) = map aml_debit ls"
  "map aml_credit (set_reconciled b ids ls) = map aml_credit ls"
  "map aml_id (set_reconciled b ids ls) = map aml_id ls"
  by (induction ls) (simp_all add: set_reconciled_def)

lemma set_reconciled_nth:
  "k < length ls \<Longrightarrow>
   set_reconciled b ids ls ! k = (if aml_id (ls ! k) \<in> set ids then (ls ! k)\<lparr>aml_reconciled := b\<rparr> else ls ! k)"
  by (simp add: set_reconciled_def)

lemma set_reconciled_last:
  "ls \<noteq> [] \<Longrightarrow>
   last (set_reconciled b ids ls) = (if aml_id (last ls) \<in> set ids then (last ls)\<lparr>aml_reconciled := b\<rparr> else last ls)"
  by (simp add: set_reconciled_def last_map)

lemma validate_deposit_single: "validate_deposit e [i] = validate_one e i"
  by (simp split: sum.splits)

lemma positive_validated:
  assumes "\<forall>j. \<forall>l \<in> set (check_payment_ids e j). aml_debit l > 0"
  shows "\<forall>j. \<forall>l \<in> set (check_payment_ids (validated e i d a) j). aml_debit l > 0"
proof (intro allI ballI)
  fix j l
  assume "l \<in> set (check_payment_ids (validated e i d a) j)"
  then have "aml_debit l \<in> set (map aml_debit (check_payment_ids (validated e i d a) j))"
    by simp
  then have "aml_debit l \<in> set (map aml_debit (check_payment_ids e j))"
    by (simp only: check_payment_ids_validated set_reconciled_fields)
  with assms show "aml_debit l > 0" by auto
qed

lemma validate_deposit_no_assertion:
  "\<forall>j. \<forall>l \<in> set (check_payment_ids e j). aml_debit l > 0 \<Longrightarrow>
   validate_deposit e ids \<noteq> Inl (AssertionError s)"
proof (induction ids arbitrary: e)
  case Nil
  then show ?case by simp
next
  case (Cons i ids)
  show ?case
  proof (cases "validate_one e i")
    case (Inr e')
    then obtain d a where "e' = validated e i d a"
      by (rule validate_one_Inr)
    with positive_validated [OF Cons.prems]
    have "\<forall>j. \<forall>l \<in> set (check_payment_ids e' j). aml_debit l > 0"
      by blast
    from Cons.IH [OF this] Inr show ?thesis by simp
  next
    case (Inl err)
    have "validate_one e i \<noteq> Inl (AssertionError s)"
    proof (cases "get_deposit e i")
      case None
      then show ?thesis by (simp add: validate_one_missing)
    next
      case (Some d)
      have pos: "\<forall>l \<in> set (check_payment_ids e i). aml_debit l > 0"
        using Cons.prems by blast
      show ?thesis
        by (simp add: validate_one_eq [OF Some pos] split: option.splits)
    qed
    with Inl show ?thesis by simp
  qed
qed

lemma manual_payment_account_filter:
  "manual_payment_account ls =
     (case filter (\<lambda>l. pml_payment_method_code l = ''manual'' \<and> pml_payment_account_id l \<noteq> None) ls of
        [] \<Rightarrow> None
      | l # rest \<Rightarrow> pml_payment_account_id l)"
  by (induction ls) auto

lemma last_move_lines_validated:
  assumes "\<forall>l \<in> set (env_lines e). aml_move_id l \<noteq> next_move_id e"
  shows "aml_account_id (last (move_lines (validated e i d a) (next_move_id e))) = Some a"
    and "aml_debit (last (move_lines (validated e i d a) (next_move_id e))) =
         fsum (map aml_debit (check_payment_ids e i))"
    and "aml_credit (last (move_lines (validated e i d a) (next_move_id e))) = 0"
    and "aml_amount_currency (last (move_lines (validated e i d a) (next_move_id e))) =
         fsum (map aml_amount_currency (check_payment_ids e i))"
  by (simp_all add: move_lines_validated [OF assms] set_reconciled_last counterpart_line_def)

lemma nth_move_lines_validated:
  assumes fresh: "\<forall>l \<in> set (env_lines e). aml_move_id l \<noteq> next_move_id e"
    and k: "k < length (check_payment_ids e i)"
  shows "(move_lines (validated e i d a) (next_move_id e) ! k)\<lparr>aml_reconciled := False\<rparr> =
     offset_line (next_move_id e) (next_line_id e + k) (check_payment_ids e i ! k)"
  using k
  by (simp add: move_lines_validated [OF fresh] set_reconciled_nth nth_append offset_lines_of_nth
      offset_line_def)

section \<open>Deleting deposits\<close>

lemma filtered_done_missing:
  "\<exists>i \<in> set ids. get_deposit e i = None \<Longrightarrow> filtered_done e ids = Inl MissingError"
proof (induction ids)
  case Nil
  then show ?case by simp
next
  case (Cons a ids)
  show ?case
  proof (cases "get_deposit e a")
    case None
    then show ?thesis by simp
  next
    case (Some x)
    with Cons.prems have "\<exists>i \<in> set ids. get_deposit e i = None" by auto
    from Cons.IH [OF this] Some show ?thesis by simp
  qed
qed

lemma filtered_done_eq:
  "\<forall>i \<in> set ids. get_deposit e i \<noteq> None \<Longrightarrow>
   filtered_done e ids =
     Inr (filter (\<lambda>x. dep_state x = DepDone) (map (\<lambda>i. the (get_deposit e i)) ids))"
  by (induction ids) auto

lemma filtered_done_Inr:
  "filtered_done e ids = Inr ds \<Longrightarrow>
   ds = filter (\<lambda>x. dep_state x = DepDone) (map (\<lambda>i. the (get_deposit e i)) ids)
   \<and> (\<forall>i \<in> set ids. get_deposit e i \<noteq> None)"
proof -
  assume a: "filtered_done e ids = Inr ds"
  have ex: "\<forall>i \<in> set ids. get_deposit e i \<noteq> None"
  proof (rule ccontr)
    assume "\<not> (\<forall>i \<in> set ids. get_deposit e i \<noteq> None)"
    then have "\<exists>i \<in> set ids. get_deposit e i = None" by simp
    from filtered_done_missing [OF this] a show False by simp
  qed
  from filtered_done_eq [OF ex] a ex show ?thesis by simp
qed

lemma find_filter_keep:
  "(\<And>x. P x \<Longrightarrow> Q x) \<Longrightarrow> find P (filter Q xs) = find P xs"
  by (induction xs) auto

lemma find_filter_drop:
  "(\<And>x. P x \<Longrightarrow> \<not> Q x) \<Longrightarrow> find P (filter Q xs) = None"
  by (induction xs) auto

lemma unlink_done_in_batch:
  assumes i: "i \<in> set ids" and dep: "get_deposit e i = Some d" and isdone: "dep_state d = DepDone"
  shows "\<exists>err. unlink e ids = Inl err"
proof (cases "filtered_done e ids")
  case (Inl err)
  then show ?thesis by (simp add: unlink_def)
next
  case (Inr ds)
  from filtered_done_Inr [OF Inr] i dep isdone have "d \<in> set ds" by force
  then obtain x xs where "ds = x # xs" by (cases ds) auto
  with Inr show ?thesis by (simp add: unlink_def)
qed

section \<open>The currency constraint\<close>

lemma check_lines_ok:
  "\<forall>l \<in> set ls. aml_currency_id l = Some (dep_currency_id d) \<Longrightarrow> check_lines e d ls = Inr ()"
  by (induction ls) simp_all

lemma check_lines_err:
  "\<exists>l \<in> set ls. aml_currency_id l \<noteq> Some (dep_currency_id d) \<Longrightarrow>
   \<exists>l \<in> set ls. aml_currency_id l \<noteq> Some (dep_currency_id d)
     \<and> check_lines e d ls =
         Inl (ValidationError
                (CurrencyMismatch (aml_debit l) (ref_or_empty (aml_ref l))
                   (map_option (\<lambda>c. cur_name (currencies e c)) (aml_currency_id l))
                   (cur_name (currencies e (dep_currency_id d)))))"
proof (induction ls)
  case Nil
  then show ?case by simp
next
  case (Cons a ls)
  show ?case
  proof (cases "aml_currency_id a \<noteq> Some (dep_currency_id d)")
    case True
    then show ?thesis by simp
  next
    case False
    with Cons.prems have "\<exists>l \<in> set ls. aml_currency_id l \<noteq> Some (dep_currency_id d)" by auto
    from Cons.IH [OF this] False show ?thesis by auto
  qed
qed

lemma check_deposit_ok:
  "\<forall>i \<in> set ids. \<exists>d. get_deposit e i = Some d
      \<and> (\<forall>l \<in> set (check_payment_ids e i). aml_currency_id l = Some (dep_currency_id d)) \<Longrightarrow>
   check_deposit e ids = Inr ()"
proof (induction ids)
  case Nil
  then show ?case by simp
next
  case (Cons i ids)
  then obtain d where d: "get_deposit e i = Some d"
    and m: "\<forall>l \<in> set (check_payment_ids e i). aml_currency_id l = Some (dep_currency_id d)"
    by auto
  from Cons have "check_deposit e ids = Inr ()" by simp
  then show ?case by (simp add: d check_lines_ok [OF m])
qed

lemma check_deposit_err:
  assumes "\<forall>i \<in> set ids. get_deposit e i \<noteq> None"
    and "\<exists>i \<in> set ids. \<exists>d. get_deposit e i = Some d
      \<and> (\<exists>l \<in> set (check_payment_ids e i). aml_currency_id l \<noteq> Some (dep_currency_id d))"
  shows "\<exists>i \<in> set ids. \<exists>d. get_deposit e i = Some d
      \<and> (\<exists>l \<in> set (check_payment_ids e i). aml_currency_id l \<noteq> Some (dep_currency_id d)
            \<and> check_deposit e ids =
                Inl (ValidationError
                       (CurrencyMismatch (aml_debit l) (ref_or_empty (aml_ref l))
                          (map_option (\<lambda>c. cur_name (currencies e c)) (aml_currency_id l))
                          (cur_name (currencies e (dep_currency_id d))))))"
  using assms
proof (induction ids)
  case Nil
  then show ?case by simp
next
  case (Cons i ids)
  from Cons.prems(1) obtain d where d: "get_deposit e i = Some d" by auto
  show ?case
  proof (cases "\<exists>l \<in> set (check_payment_ids e i). aml_currency_id l \<noteq> Some (dep_currency_id d)")
    case True
    from check_lines_err [OF True, of e] obtain l where
      l: "l \<in> set (check_payment_ids e i)" "aml_currency_id l \<noteq> Some (dep_currency_id d)"
        "check_lines e d (check_payment_ids e i) =
           Inl (ValidationError
                  (CurrencyMismatch (aml_debit l) (ref_or_empty (aml_ref l))
                     (map_option (\<lambda>c. cur_name (currencies e c)) (aml_currency_id l))
                     (cur_name (currencies e (dep_currency_id d)))))"
      by blast
    have "check_deposit e (i # ids) =
           Inl (ValidationError
                  (CurrencyMismatch (aml_debit l) (ref_or_empty (aml_ref l))
                     (map_option (\<lambda>c. cur_name (currencies e c)) (aml_currency_id l))
                     (cur_name (currencies e (dep_currency_id d)))))"
      by (simp add: d l(3))
    with d l(1,2) show ?thesis by auto
  next
    case False
    then have ok: "\<forall>l \<in> set (check_payment_ids e i). aml_currency_id l = Some (dep_currency_id d)"
      by simp
    have step: "check_deposit e (i # ids) = check_deposit e ids"
      by (simp add: d check_lines_ok [OF ok])
    from Cons.prems(2) False d
    have "\<exists>j \<in> set ids. \<exists>d. get_deposit e j = Some d
      \<and> (\<exists>l \<in> set (check_payment_ids e j). aml_currency_id l \<noteq> Some (dep_currency_id d))"
      by auto
    moreover from Cons.prems(1) have "\<forall>j \<in> set ids. get_deposit e j \<noteq> None" by simp
    ultimately have "\<exists>j \<in> set ids. \<exists>d. get_deposit e j = Some d
      \<and> (\<exists>l \<in> set (check_payment_ids e j). aml_currency_id l \<noteq> Some (dep_currency_id d)
            \<and> check_deposit e ids =
                Inl (ValidationError
                       (CurrencyMismatch (aml_debit l) (ref_or_empty (aml_ref l))
                          (map_option (\<lambda>c. cur_name (currencies e c)) (aml_currency_id l))
                          (cur_name (currencies e (dep_currency_id d))))))"
      by (intro Cons.IH)
    then show ?thesis unfolding step by auto
  qed
qed

section \<open>The derived totals\<close>

lemma foldl_upd_rows:
  assumes key: "\<And>i. k (row i) = i"
  shows "foldl (\<lambda>m x. m(k x \<mapsto> f x)) m0 (map row keys) j =
     (if j \<in> set keys then Some (f (row j)) else m0 j)"
proof (induction keys arbitrary: m0)
  case Nil
  then show ?case by simp
next
  case (Cons a keys)
  show ?case
    unfolding list.map foldl_Cons Cons.IH
    by (simp add: key)
qed

lemma mapped_data_read_group:
  "mapped_data (read_group e ids) j =
     (if j \<in> set ids \<and> check_payment_ids e j \<noteq> []
      then Some \<lparr>md_debit = fsum (map aml_debit (check_payment_ids e j)),
                 md_amount_currency =
                   (if rg_sums_amount_currency e
                    then fsum (map aml_amount_currency (check_payment_ids e j)) else 0),
                 md_count = length (check_payment_ids e j)\<rparr>
      else None)"
  unfolding mapped_data_def read_group_def
  by (subst foldl_upd_rows) simp_all

lemma check_payment_ids_compute [simp]:
  "check_payment_ids (compute_check_deposit e ids) j = check_payment_ids e j"
  by (simp add: compute_check_deposit_def check_payment_ids_def Let_def)

lemma compute_check_deposit_fields:
  "map dep_id (env_deposits (compute_check_deposit e ids)) = map dep_id (env_deposits e)"
  "map dep_currency_id (env_deposits (compute_check_deposit e ids)) = map dep_currency_id (env_deposits e)"
  "map dep_company_id (env_deposits (compute_check_deposit e ids)) = map dep_company_id (env_deposits e)"
  by (simp_all add: compute_check_deposit_def Let_def)

section \<open>Attaching the pending checks\<close>

lemma attach_by_id:
  assumes "distinct (map aml_id ls)"
  shows "map (\<lambda>l. if aml_id l \<in> aml_id ` set (filter P ls) then f l else l) ls =
         map (\<lambda>l. if P l then f l else l) ls"
proof (rule map_cong [OF refl])
  fix l
  assume l: "l \<in> set ls"
  have inj: "inj_on aml_id (set ls)"
    using assms by (simp add: distinct_map)
  have "aml_id l \<in> aml_id ` set (filter P ls) \<longleftrightarrow> P l"
  proof
    assume "aml_id l \<in> aml_id ` set (filter P ls)"
    then obtain l' where l': "l' \<in> set ls" "P l'" "aml_id l' = aml_id l" by auto
    with inj l have "l' = l" by (auto dest: inj_onD)
    with l' show "P l" by simp
  next
    assume "P l"
    with l show "aml_id l \<in> aml_id ` set (filter P ls)" by auto
  qed
  then show "(if aml_id l \<in> aml_id ` set (filter P ls) then f l else l) = (if P l then f l else l)"
    by simp
qed

section \<open>The effect of backtodraft\<close>

lemma find_id_unique:
  assumes "distinct (map aml_id ls)" and "find (\<lambda>l. aml_id l = i) ls = Some l"
    and "x \<in> set ls" and "aml_id x = i"
  shows "x = l"
proof -
  from assms(2) have "l \<in> set ls" "aml_id l = i"
    by (auto simp: find_Some_iff)
  moreover from assms(1) have "inj_on aml_id (set ls)" by (simp add: distinct_map)
  ultimately show ?thesis using assms(3,4) by (auto dest: inj_onD)
qed

lemma unreconcile_step:
  assumes dist: "distinct (map aml_id (env_lines e))"
  shows "(case get_line e i of
            None \<Rightarrow> e
          | Some l \<Rightarrow> if aml_reconciled l then remove_move_reconcile e i else e) =
         remove_move_reconcile e i"
proof (cases "get_line e i")
  case None
  then have "\<forall>x \<in> set (env_lines e). aml_id x \<noteq> i"
    by (auto simp: get_line_def find_None_iff)
  then have "set_reconciled False [i] (env_lines e) = env_lines e"
    by (simp add: set_reconciled_def map_idI)
  with None show ?thesis by (simp add: remove_move_reconcile_def)
next
  case (Some l)
  show ?thesis
  proof (cases "aml_reconciled l")
    case True
    with Some show ?thesis by simp
  next
    case False
    have "\<forall>x \<in> set (env_lines e). aml_id x = i \<longrightarrow> x\<lparr>aml_reconciled := False\<rparr> = x"
    proof (intro ballI impI)
      fix x
      assume "x \<in> set (env_lines e)" "aml_id x = i"
      with find_id_unique [OF dist Some [unfolded get_line_def]] have "x = l" by simp
      with False show "x\<lparr>aml_reconciled := False\<rparr> = x" by simp
    qed
    then have "set_reconciled False [i] (env_lines e) = env_lines e"
      by (simp add: set_reconciled_def map_idI)
    with Some False show ?thesis by (simp add: remove_move_reconcile_def)
  qed
qed

lemma unreconcile_lines_eq:
  "distinct (map aml_id (env_lines e)) \<Longrightarrow>
   unreconcile_lines e ls = e\<lparr>env_lines := set_reconciled False (map aml_id ls) (env_lines e)\<rparr>"
proof (induction ls arbitrary: e)
  case Nil
  then show ?case by simp
next
  case (Cons l ls)
  have d': "distinct (map aml_id (env_lines (remove_move_reconcile e (aml_id l))))"
    using Cons.prems by (simp add: remove_move_reconcile_def set_reconciled_fields)
  show ?case
    unfolding unreconcile_lines.simps unreconcile_step [OF Cons.prems] Cons.IH [OF d']
    by (simp add: remove_move_reconcile_def set_reconciled_append)
qed

lemma filter_map_same_id:
  "filter (\<lambda>mv. am_id mv \<noteq> m) (map (\<lambda>mv. if am_id mv = m then f mv else mv) ms) =
   filter (\<lambda>mv. am_id mv \<noteq> m) (map (\<lambda>mv. if am_id mv = m then g mv else mv) ms)"
  if "\<And>mv. am_id (f mv) = am_id mv" "\<And>mv. am_id (g mv) = am_id mv"
  using that by (induction ms) auto

lemma backtodraft_one_no_move:
  "get_deposit e i = Some d \<Longrightarrow> dep_move_id d = None \<Longrightarrow>
   backtodraft_one e i = Inr (deposit_write e i (\<lambda>x. x\<lparr>dep_state := DepDraft\<rparr>))"
  by (simp add: backtodraft_one_def)

lemma backtodraft_one_locked:
  "get_deposit e i = Some d \<Longrightarrow> dep_move_id d = Some m \<Longrightarrow> get_move e m = Some move \<Longrightarrow>
   am_state move = Posted \<Longrightarrow> \<not> jr_update_posted (journals e (am_journal_id move)) \<Longrightarrow>
   backtodraft_one e i = Inl (UserError PostedEntryLocked)"
  by (simp add: backtodraft_one_def button_draft_def)

lemma backtodraft_one_move:
  assumes dist: "distinct (map aml_id (env_lines e))"
    and dep: "get_deposit e i = Some d"
    and mv: "dep_move_id d = Some m"
    and move: "get_move e m = Some move"
    and unlocked: "am_state move = Posted \<longrightarrow> jr_update_posted (journals e (am_journal_id move))"
  shows "backtodraft_one e i = Inr (reverted e i m)"
proof -
  have mid: "am_id move = m"
    using move by (auto simp: get_move_def find_Some_iff)
  define e1 where "e1 = (if am_state move = Posted
      then e\<lparr>env_moves := map (\<lambda>mv. if am_id mv = m then mv\<lparr>am_state := Draft\<rparr> else mv) (env_moves e)\<rparr>
      else e)"
  have b: "(if am_state move = Posted then button_draft e move else Inr e) = Inr e1"
    using unlocked by (simp add: button_draft_def e1_def mid)
  have l1: "env_lines e1 = env_lines e" and d1: "env_deposits e1 = env_deposits e"
    by (simp_all add: e1_def)
  have cp: "check_payment_ids e1 i = check_payment_ids e i"
    by (simp add: check_payment_ids_def l1)
  have dist1: "distinct (map aml_id (env_lines e1))"
    using dist by (simp add: l1)
  have m1: "filter (\<lambda>mv. am_id mv \<noteq> m) (env_moves e1) = filter (\<lambda>mv. am_id mv \<noteq> m) (env_moves e)"
  proof (cases "am_state move = Posted")
    case True
    have "filter (\<lambda>mv. am_id mv \<noteq> m)
            (map (\<lambda>mv. if am_id mv = m then mv\<lparr>am_state := Draft\<rparr> else mv) (env_moves e)) =
          filter (\<lambda>mv. am_id mv \<noteq> m) (map (\<lambda>mv. if am_id mv = m then mv else mv) (env_moves e))"
      by (rule filter_map_same_id) simp_all
    with True show ?thesis by (simp add: e1_def)
  next
    case False
    then show ?thesis by (simp add: e1_def)
  qed
  have fin: "deposit_write
        (am_unlink (e1\<lparr>env_lines := set_reconciled False (map aml_id (check_payment_ids e i)) (env_lines e1)\<rparr>) m)
        i (\<lambda>d. d\<lparr>dep_state := DepDraft\<rparr>) = reverted e i m"
  proof (cases "am_state move = Posted")
    case True
    with m1 show ?thesis
      by (simp add: deposit_write_def am_unlink_def reverted_def e1_def)
  next
    case False
    then show ?thesis
      by (simp add: deposit_write_def am_unlink_def reverted_def e1_def)
  qed
  show ?thesis
    unfolding backtodraft_one_def
    by (simp add: dep mv move b cp unreconcile_lines_eq [OF dist1] fin del: unreconcile_lines.simps)
qed


lemma backtodraft_single: "backtodraft e [i] = backtodraft_one e i"
  by (simp split: sum.splits)

lemma get_move_id: "get_move e m = Some move \<Longrightarrow> am_id move = m"
  by (auto simp: get_move_def find_Some_iff)

lemma button_draft_unposted:
  assumes "get_move e m = Some move"
    and "jr_update_posted (journals e (am_journal_id move))"
  shows "button_draft e move = Inr (unposted e m)"
  using assms by (simp add: button_draft_def unposted_def get_move_id)

lemma find_map_update:
  "find (\<lambda>x. k x = m) xs = Some y \<Longrightarrow> (\<And>x. k (f x) = k x) \<Longrightarrow>
   find (\<lambda>x. k x = m) (map (\<lambda>x. if k x = m then f x else x) xs) = Some (f y)"
  by (induction xs) (auto split: if_splits)

lemma get_move_unposted:
  assumes "get_move e m = Some move"
  shows "get_move (unposted e m) m = Some (move\<lparr>am_state := Draft\<rparr>)"
  using assms unfolding get_move_def unposted_def
  by (simp add: find_map_update [where k = am_id and f = "\<lambda>mv. mv\<lparr>am_state := Draft\<rparr>"])

lemma env_moves_unreconcile_lines:
  "env_moves (unreconcile_lines e ls) = env_moves e"
  by (induction ls arbitrary: e) (simp_all add: remove_move_reconcile_def split: option.splits)

lemma get_move_unreconcile_lines:
  "get_move (unreconcile_lines e ls) m = get_move e m"
  by (simp add: get_move_def env_moves_unreconcile_lines)

lemma backtodraft_one_steps:
  assumes "get_deposit e i = Some d" and "dep_move_id d = Some m" and "get_move e m = Some move"
  shows "backtodraft_one e i =
     (case (if am_state move = Posted then button_draft e move else Inr e) of
        Inl err \<Rightarrow> Inl err
      | Inr e1 \<Rightarrow>
          Inr (deposit_write (am_unlink (unreconcile_lines e1 (check_payment_ids e1 i)) m) i
                 (\<lambda>x. x\<lparr>dep_state := DepDraft\<rparr>)))"
  using assms by (simp add: backtodraft_one_def)


lemma set_reconciled_own:
  "set_reconciled b (map aml_id ls) ls = map (\<lambda>l. l\<lparr>aml_reconciled := b\<rparr>) ls"
  by (simp add: set_reconciled_def)

lemma filter_unreconciled:
  "filter (\<lambda>l. aml_move_id l \<noteq> m) (map (\<lambda>l. l\<lparr>aml_reconciled := b\<rparr>) ls) =
   map (\<lambda>l. l\<lparr>aml_reconciled := b\<rparr>) (filter (\<lambda>l. aml_move_id l \<noteq> m) ls)"
  by (induction ls) simp_all

lemma filter_swap: "filter P (filter Q xs) = filter Q (filter P xs)"
  by (induction xs) simp_all

lemma check_payment_ids_reverted:
  "check_payment_ids (reverted e i m) i =
     map (\<lambda>l. l\<lparr>aml_reconciled := False\<rparr>)
       (filter (\<lambda>l. aml_move_id l \<noteq> m) (check_payment_ids e i))"
proof -
  have "check_payment_ids (reverted e i m) i =
      filter (\<lambda>l. aml_move_id l \<noteq> m)
        (filter (\<lambda>l. aml_check_deposit_id l = Some i)
           (set_reconciled False (map aml_id (check_payment_ids e i)) (env_lines e)))"
    unfolding check_payment_ids_def reverted_def by (simp add: conj_commute)
  also have "\<dots> = filter (\<lambda>l. aml_move_id l \<noteq> m)
        (set_reconciled False (map aml_id (check_payment_ids e i)) (check_payment_ids e i))"
    by (simp only: filter_set_reconciled_deposit check_payment_ids_def)
  also have "\<dots> = map (\<lambda>l. l\<lparr>aml_reconciled := False\<rparr>)
       (filter (\<lambda>l. aml_move_id l \<noteq> m) (check_payment_ids e i))"
    by (simp only: set_reconciled_own filter_unreconciled)
  finally show ?thesis .
qed

lemma find_map_keep:
  "(\<And>x. P (f x) = P x) \<Longrightarrow> find P (map f xs) = map_option f (find P xs)"
  by (induction xs) simp_all

lemma get_deposit_reverted:
  "get_deposit e i = Some d \<Longrightarrow>
   map_option dep_state (get_deposit (reverted e i m) i) = Some DepDraft"
proof -
  assume d: "get_deposit e i = Some d"
  let ?f = "\<lambda>x. if dep_id x = i then x\<lparr>dep_state := DepDraft\<rparr> else x"
  let ?g = "\<lambda>x. if dep_move_id x = Some m then x\<lparr>dep_move_id := None\<rparr> else x"
  have "get_deposit (reverted e i m) i =
      find (\<lambda>x. dep_id x = i) (map (\<lambda>x. ?f (?g x)) (env_deposits e))"
    by (simp add: get_deposit_def reverted_def comp_def)
  also have "\<dots> = map_option (\<lambda>x. ?f (?g x)) (find (\<lambda>x. dep_id x = i) (env_deposits e))"
    by (rule find_map_keep) simp
  finally have "get_deposit (reverted e i m) i = Some (?f (?g d))"
    using d by (simp add: get_deposit_def)
  moreover from d have "dep_id d = i" by (auto simp: get_deposit_def find_Some_iff)
  ultimately show ?thesis by simp
qed

section \<open>Validation keeps the database consistent\<close>

lemma offset_lines_of_ids: "map aml_id (offset_lines_of m n ls) = [n ..< n + length ls]"
proof (induction ls arbitrary: n)
  case Nil
  then show ?case by simp
next
  case (Cons l ls)
  show ?case
    by (simp add: offset_lines_of_Cons Cons.IH offset_line_def upt_add_Suc del: upt_Suc)
qed

lemma offset_lines_of_moves: "x \<in> set (offset_lines_of m n ls) \<Longrightarrow> aml_move_id x = m"
  by (induction ls arbitrary: n) (auto simp: offset_lines_of_Cons offset_line_def)

lemma offset_lines_of_id_bounds:
  assumes "x \<in> set (offset_lines_of m n ls)"
  shows "n \<le> aml_id x \<and> aml_id x < n + length ls"
proof -
  from assms have "aml_id x \<in> set (map aml_id (offset_lines_of m n ls))" by simp
  then show ?thesis by (simp add: offset_lines_of_ids)
qed

lemma set_set_reconciled:
  "x \<in> set (set_reconciled b ids ls) \<Longrightarrow>
   \<exists>y \<in> set ls. x = y \<or> x = y\<lparr>aml_reconciled := b\<rparr>"
  by (auto simp: set_reconciled_def)

lemma db_ok_validated:
  assumes ok: "db_ok e"
  shows "db_ok (validated e i d a)"
proof -
  let ?n = "next_line_id e" and ?m = "next_move_id e" and ?cs = "check_payment_ids e i"
  let ?new = "env_lines e @ offset_lines_of ?m ?n ?cs @ [counterpart_line ?m (?n + length ?cs) d a ?cs]"
  have mv: "\<forall>mv \<in> set (env_moves (validated e i d a)). am_id mv < next_move_id (validated e i d a)"
    using ok by (auto simp: db_ok_def validated_def less_Suc_eq)
  have raw: "\<forall>y \<in> set ?new. aml_id y < Suc (?n + length ?cs) \<and> aml_move_id y < Suc ?m"
  proof
    fix y
    assume "y \<in> set ?new"
    then consider "y \<in> set (env_lines e)" | "y \<in> set (offset_lines_of ?m ?n ?cs)"
      | "y = counterpart_line ?m (?n + length ?cs) d a ?cs" by auto
    then show "aml_id y < Suc (?n + length ?cs) \<and> aml_move_id y < Suc ?m"
    proof cases
      case 1
      with ok have "aml_id y < ?n \<and> aml_move_id y < ?m" by (simp add: db_ok_def)
      then show ?thesis by simp
    next
      case 2
      from offset_lines_of_id_bounds [OF 2] offset_lines_of_moves [OF 2] show ?thesis by simp
    next
      case 3
      then show ?thesis by (simp add: counterpart_line_def)
    qed
  qed
  have ln: "\<forall>l \<in> set (env_lines (validated e i d a)).
      aml_id l < next_line_id (validated e i d a) \<and> aml_move_id l < next_move_id (validated e i d a)"
  proof
    fix l
    assume "l \<in> set (env_lines (validated e i d a))"
    then have "l \<in> set (set_reconciled True
        (pair_ids (zip (map aml_id ?cs) [?n ..< ?n + length ?cs])) ?new)"
      by (simp add: validated_def)
    from set_set_reconciled [OF this] obtain y where "y \<in> set ?new"
      and "l = y \<or> l = y\<lparr>aml_reconciled := True\<rparr>" by blast
    with raw have "aml_id l < Suc (?n + length ?cs) \<and> aml_move_id l < Suc ?m" by auto
    then show "aml_id l < next_line_id (validated e i d a) \<and> aml_move_id l < next_move_id (validated e i d a)"
      by (simp add: validated_def)
  qed
  have old: "\<forall>x \<in> set (map aml_id (env_lines e)). x < ?n"
    using ok by (simp add: db_ok_def)
  have "distinct (map aml_id ?new)"
    using ok old by (auto simp: db_ok_def offset_lines_of_ids counterpart_line_def)
  then have di: "distinct (map aml_id (env_lines (validated e i d a)))"
    by (simp add: validated_def set_reconciled_fields)
  have dp: "\<forall>x \<in> set (env_deposits (validated e i d a)).
      dep_id x < next_deposit_id (validated e i d a)
      \<and> (\<forall>m \<in> set_option (dep_move_id x). m < next_move_id (validated e i d a))"
    using ok by (auto simp: db_ok_def validated_def less_Suc_eq)
  from mv ln di dp show ?thesis
    unfolding db_ok_def by (intro conjI)
qed

section \<open>The invariant of the workflow\<close>

lemma pair_ids_zip:
  "length xs = length ys \<Longrightarrow> set xs \<subseteq> set (pair_ids (zip xs ys))"
  by (induction xs ys rule: list_induct2) (auto simp: pair_ids_def)

lemma move_unshared_validated:
  assumes ok: "db_ok e" and un: "move_unshared e"
  shows "move_unshared (validated e i d a)"
  unfolding move_unshared_def
proof (intro ballI impI)
  fix d1 d2 m
  assume d1: "d1 \<in> set (env_deposits (validated e i d a))"
    and d2: "d2 \<in> set (env_deposits (validated e i d a))"
    and m1: "m \<in> set_option (dep_move_id d1)" and m2: "dep_move_id d2 = Some m"
  let ?f = "\<lambda>x. if dep_id x = i then x\<lparr>dep_state := DepDone, dep_move_id := Some (next_move_id e)\<rparr> else x"
  from d1 obtain x1 where x1: "x1 \<in> set (env_deposits e)" "d1 = ?f x1"
    by (auto simp: validated_def)
  from d2 obtain x2 where x2: "x2 \<in> set (env_deposits e)" "d2 = ?f x2"
    by (auto simp: validated_def)
  from m1 have m1': "dep_move_id d1 = Some m" by simp
  have old: "dep_move_id x \<noteq> Some (next_move_id e)" if "x \<in> set (env_deposits e)" for x
    using ok that by (auto simp: db_ok_def)
  show "dep_id d1 = dep_id d2"
  proof (cases "dep_id x1 = i")
    case True
    note t1 = this
    show ?thesis
    proof (cases "dep_id x2 = i")
      case True
      with t1 x1 x2 show ?thesis by simp
    next
      case False
      from t1 x1 have "dep_move_id d1 = Some (next_move_id e)" by simp
      with m1' have "m = next_move_id e" by simp
      moreover from False x2 have "d2 = x2" by simp
      ultimately have "dep_move_id x2 = Some (next_move_id e)" using m2 by simp
      with old [OF x2(1)] show ?thesis by simp
    qed
  next
    case False
    note f1 = this
    from f1 x1 have e1: "d1 = x1" by simp
    show ?thesis
    proof (cases "dep_id x2 = i")
      case True
      with x2 have "dep_move_id d2 = Some (next_move_id e)" by simp
      with m2 have "m = next_move_id e" by simp
      with m1' e1 have "dep_move_id x1 = Some (next_move_id e)" by simp
      with old [OF x1(1)] show ?thesis by simp
    next
      case False
      with x2 have e2: "d2 = x2" by simp
      from un x1(1) x2(1)
      have "\<forall>m \<in> set_option (dep_move_id x1). dep_move_id x2 = Some m \<longrightarrow> dep_id x1 = dep_id x2"
        unfolding move_unshared_def by blast
      with m1' m2 e1 e2 show ?thesis by simp
    qed
  qed
qed

lemma reconciled_set_reconciled:
  assumes "x \<in> set (set_reconciled True ids ls)"
    and "\<forall>l \<in> set ls. aml_id l \<notin> set ids \<longrightarrow> aml_reconciled l"
  shows "aml_reconciled x"
  using assms by (auto simp: set_reconciled_def split: if_splits)

lemma done_ok_validated:
  assumes dn: "done_ok e"
  shows "done_ok (validated e i d a)"
  unfolding done_ok_def
proof (intro ballI impI conjI)
  fix d'
  assume d': "d' \<in> set (env_deposits (validated e i d a))" and st: "dep_state d' = DepDone"
  let ?f = "\<lambda>x. if dep_id x = i then x\<lparr>dep_state := DepDone, dep_move_id := Some (next_move_id e)\<rparr> else x"
  let ?p = "\<lambda>mv. if am_id mv = next_move_id e then mv\<lparr>am_state := Posted\<rparr> else mv"
  let ?ids = "pair_ids (zip (map aml_id (check_payment_ids e i))
                  [next_line_id e ..< next_line_id e + length (check_payment_ids e i)])"
  from d' obtain x where x: "x \<in> set (env_deposits e)" "d' = ?f x"
    by (auto simp: validated_def)
  have moves: "env_moves (validated e i d a) = map ?p (env_moves e) @
      [\<lparr>am_id = next_move_id e, am_journal_id = dep_journal_id d,
        am_date = dep_deposit_date d, am_ref = ''Check Deposit '' @ dep_name d,
        am_company_id = dep_company_id d, am_state = Posted\<rparr>]"
    by (simp add: validated_def)
  show "\<exists>mv \<in> set (env_moves (validated e i d a)). dep_move_id d' = Some (am_id mv) \<and> am_state mv = Posted"
  proof (cases "dep_id x = i")
    case True
    with x have "dep_move_id d' = Some (next_move_id e)" by simp
    then show ?thesis unfolding moves by simp
  next
    case False
    with x st have "d' = x" "dep_state x = DepDone" by simp_all
    with dn x(1) obtain mv where mv: "mv \<in> set (env_moves e)" "dep_move_id x = Some (am_id mv)"
      "am_state mv = Posted"
      unfolding done_ok_def by blast
    then have "?p mv \<in> set (env_moves (validated e i d a))" "am_id (?p mv) = am_id mv"
      "am_state (?p mv) = Posted"
      unfolding moves by simp_all
    with mv(2) \<open>d' = x\<close> show ?thesis by metis
  qed
  fix l
  assume l: "l \<in> set (check_payment_ids (validated e i d a) (dep_id d'))"
  have idd: "dep_id d' = dep_id x" using x by simp
  from l have l': "l \<in> set (set_reconciled True ?ids (check_payment_ids e (dep_id x)))"
    by (simp only: check_payment_ids_validated idd)
  show "aml_reconciled l"
  proof (cases "dep_id x = i")
    case True
    have "set (map aml_id (check_payment_ids e i)) \<subseteq> set ?ids"
      by (rule pair_ids_zip) simp
    then have "\<forall>y \<in> set (check_payment_ids e (dep_id x)). aml_id y \<notin> set ?ids \<longrightarrow> aml_reconciled y"
      using True by auto
    with l' show ?thesis by (rule reconciled_set_reconciled)
  next
    case False
    with x st have "dep_state x = DepDone" by simp
    with dn x(1) have "\<forall>y \<in> set (check_payment_ids e (dep_id x)). aml_reconciled y"
      unfolding done_ok_def by blast
    then have "\<forall>y \<in> set (check_payment_ids e (dep_id x)). aml_id y \<notin> set ?ids \<longrightarrow> aml_reconciled y"
      by simp
    with l' show ?thesis by (rule reconciled_set_reconciled)
  qed
qed

lemma backtodraft_one_Inr:
  assumes run: "backtodraft_one e i = Inr e'"
    and dist: "distinct (map aml_id (env_lines e))"
  obtains (no_move) d where "get_deposit e i = Some d" "dep_move_id d = None"
      "e' = deposit_write e i (\<lambda>x. x\<lparr>dep_state := DepDraft\<rparr>)"
    | (with_move) d m where "get_deposit e i = Some d" "dep_move_id d = Some m"
      "e' = reverted e i m"
proof (cases "get_deposit e i")
  case None
  with run show ?thesis by (simp add: backtodraft_one_def)
next
  case (Some d)
  note dep = this
  show ?thesis
  proof (cases "dep_move_id d")
    case None
    from run have "e' = deposit_write e i (\<lambda>x. x\<lparr>dep_state := DepDraft\<rparr>)"
      by (simp add: backtodraft_one_no_move [OF dep None])
    with dep None show ?thesis by (rule no_move)
  next
    case (Some m)
    note mv = this
    show ?thesis
    proof (cases "get_move e m")
      case None
      with run dep mv show ?thesis by (simp add: backtodraft_one_def)
    next
      case (Some move)
      show ?thesis
      proof (cases "am_state move = Posted \<and> \<not> jr_update_posted (journals e (am_journal_id move))")
        case True
        with run backtodraft_one_locked [OF dep mv Some] show ?thesis by simp
      next
        case False
        then have "am_state move = Posted \<longrightarrow> jr_update_posted (journals e (am_journal_id move))"
          by simp
        from backtodraft_one_move [OF dist dep mv Some this] run
        have "e' = reverted e i m" by simp
        with dep mv show ?thesis by (rule with_move)
      qed
    qed
  qed
qed

lemma get_deposit_mem: "get_deposit e i = Some d \<Longrightarrow> d \<in> set (env_deposits e) \<and> dep_id d = i"
  by (auto simp: get_deposit_def find_Some_iff)

lemma db_ok_draft:
  "db_ok e \<Longrightarrow> db_ok (deposit_write e i (\<lambda>x. x\<lparr>dep_state := DepDraft\<rparr>))"
  by (auto simp: db_ok_def deposit_write_def)

lemma move_unshared_draft:
  assumes un: "move_unshared e"
  shows "move_unshared (deposit_write e i (\<lambda>x. x\<lparr>dep_state := DepDraft\<rparr>))"
  unfolding move_unshared_def
proof (intro ballI impI)
  fix d1 d2 k
  let ?f = "\<lambda>x. if dep_id x = i then x\<lparr>dep_state := DepDraft\<rparr> else x"
  assume "d1 \<in> set (env_deposits (deposit_write e i (\<lambda>x. x\<lparr>dep_state := DepDraft\<rparr>)))"
    "d2 \<in> set (env_deposits (deposit_write e i (\<lambda>x. x\<lparr>dep_state := DepDraft\<rparr>)))"
    and k1: "k \<in> set_option (dep_move_id d1)" and k2: "dep_move_id d2 = Some k"
  then obtain x1 x2 where x1: "x1 \<in> set (env_deposits e)" "d1 = ?f x1"
    and x2: "x2 \<in> set (env_deposits e)" "d2 = ?f x2"
    by (auto simp: deposit_write_def)
  from k1 x1 have a: "dep_move_id x1 = Some k" by (simp split: if_splits)
  from k2 x2 have b: "dep_move_id x2 = Some k" by (simp split: if_splits)
  from un x1(1) x2(1)
  have "\<forall>m \<in> set_option (dep_move_id x1). dep_move_id x2 = Some m \<longrightarrow> dep_id x1 = dep_id x2"
    unfolding move_unshared_def by blast
  with a b have "dep_id x1 = dep_id x2" by simp
  with x1 x2 show "dep_id d1 = dep_id d2" by simp
qed

lemma done_ok_draft:
  assumes "done_ok e"
  shows "done_ok (deposit_write e i (\<lambda>x. x\<lparr>dep_state := DepDraft\<rparr>))"
  unfolding done_ok_def
proof (intro ballI impI)
  fix d'
  let ?e' = "deposit_write e i (\<lambda>x. x\<lparr>dep_state := DepDraft\<rparr>)"
  assume "d' \<in> set (env_deposits ?e')" and st: "dep_state d' = DepDone"
  then obtain x where x: "x \<in> set (env_deposits e)"
    and d': "d' = (if dep_id x = i then x\<lparr>dep_state := DepDraft\<rparr> else x)"
    by (auto simp: deposit_write_def)
  with st have "d' = x" by (auto split: if_splits)
  with x st assms
  have "(\<exists>mv \<in> set (env_moves e). dep_move_id d' = Some (am_id mv) \<and> am_state mv = Posted)
      \<and> (\<forall>l \<in> set (check_payment_ids e (dep_id d')). aml_reconciled l)"
    unfolding done_ok_def by blast
  moreover have "env_moves ?e' = env_moves e" "check_payment_ids ?e' (dep_id d') = check_payment_ids e (dep_id d')"
    by (simp_all add: deposit_write_def check_payment_ids_def)
  ultimately show "(\<exists>mv \<in> set (env_moves ?e'). dep_move_id d' = Some (am_id mv) \<and> am_state mv = Posted)
      \<and> (\<forall>l \<in> set (check_payment_ids ?e' (dep_id d')). aml_reconciled l)"
    by simp
qed

lemma db_ok_reverted:
  assumes ok: "db_ok e"
  shows "db_ok (reverted e i m)"
proof -
  have mv: "\<forall>mv \<in> set (env_moves (reverted e i m)). am_id mv < next_move_id (reverted e i m)"
    using ok by (auto simp: db_ok_def reverted_def)
  have ln: "\<forall>l \<in> set (env_lines (reverted e i m)).
      aml_id l < next_line_id (reverted e i m) \<and> aml_move_id l < next_move_id (reverted e i m)"
  proof
    fix l
    assume "l \<in> set (env_lines (reverted e i m))"
    then have "l \<in> set (set_reconciled False (map aml_id (check_payment_ids e i)) (env_lines e))"
      by (simp add: reverted_def)
    from set_set_reconciled [OF this] obtain y where "y \<in> set (env_lines e)"
      and "l = y \<or> l = y\<lparr>aml_reconciled := False\<rparr>" by blast
    with ok have "aml_id l < next_line_id e \<and> aml_move_id l < next_move_id e"
      by (auto simp: db_ok_def)
    then show "aml_id l < next_line_id (reverted e i m) \<and> aml_move_id l < next_move_id (reverted e i m)"
      by (simp add: reverted_def)
  qed
  have "distinct (map aml_id (set_reconciled False (map aml_id (check_payment_ids e i)) (env_lines e)))"
    using ok by (simp add: db_ok_def set_reconciled_fields)
  then have di: "distinct (map aml_id (env_lines (reverted e i m)))"
    by (simp add: reverted_def distinct_map_filter)
  have dp: "\<forall>x \<in> set (env_deposits (reverted e i m)).
      dep_id x < next_deposit_id (reverted e i m)
      \<and> (\<forall>k \<in> set_option (dep_move_id x). k < next_move_id (reverted e i m))"
    using ok by (auto simp: db_ok_def reverted_def split: if_splits)
  from mv ln di dp show ?thesis
    unfolding db_ok_def by (intro conjI)
qed

lemma move_unshared_reverted:
  assumes un: "move_unshared e"
  shows "move_unshared (reverted e i m)"
  unfolding move_unshared_def
proof (intro ballI impI)
  fix d1 d2 k
  let ?f = "\<lambda>x. if dep_id x = i then x\<lparr>dep_state := DepDraft\<rparr> else x"
  let ?g = "\<lambda>x. if dep_move_id x = Some m then x\<lparr>dep_move_id := None\<rparr> else x"
  assume "d1 \<in> set (env_deposits (reverted e i m))" "d2 \<in> set (env_deposits (reverted e i m))"
    and k1: "k \<in> set_option (dep_move_id d1)" and k2: "dep_move_id d2 = Some k"
  then obtain x1 x2 where x1: "x1 \<in> set (env_deposits e)" "d1 = ?f (?g x1)"
    and x2: "x2 \<in> set (env_deposits e)" "d2 = ?f (?g x2)"
    by (auto simp: reverted_def)
  from k1 x1 have a: "dep_move_id x1 = Some k" by (auto split: if_splits)
  from k2 x2 have b: "dep_move_id x2 = Some k" by (auto split: if_splits)
  from un x1(1) x2(1)
  have "\<forall>m \<in> set_option (dep_move_id x1). dep_move_id x2 = Some m \<longrightarrow> dep_id x1 = dep_id x2"
    unfolding move_unshared_def by blast
  with a b have "dep_id x1 = dep_id x2" by simp
  with x1 x2 show "dep_id d1 = dep_id d2" by simp
qed

lemma done_ok_reverted:
  assumes dn: "done_ok e" and un: "move_unshared e"
    and dist: "distinct (map aml_id (env_lines e))"
    and dep: "get_deposit e i = Some d" and mv: "dep_move_id d = Some m"
  shows "done_ok (reverted e i m)"
  unfolding done_ok_def
proof (intro ballI impI conjI)
  fix d'
  let ?f = "\<lambda>x. if dep_id x = i then x\<lparr>dep_state := DepDraft\<rparr> else x"
  let ?g = "\<lambda>x. if dep_move_id x = Some m then x\<lparr>dep_move_id := None\<rparr> else x"
  let ?ids = "map aml_id (check_payment_ids e i)"
  assume "d' \<in> set (env_deposits (reverted e i m))" and st: "dep_state d' = DepDone"
  then obtain x where x: "x \<in> set (env_deposits e)" and d': "d' = ?f (?g x)"
    by (auto simp: reverted_def)
  from st d' have ni: "dep_id x \<noteq> i" by (auto split: if_splits)
  with st d' have sx: "dep_state x = DepDone" by (auto split: if_splits)
  from get_deposit_mem [OF dep] have dm: "d \<in> set (env_deposits e)" "dep_id d = i" by simp_all
  have nm: "dep_move_id x \<noteq> Some m"
  proof
    assume xm: "dep_move_id x = Some m"
    from un x dm(1)
    have "\<forall>k \<in> set_option (dep_move_id x). dep_move_id d = Some k \<longrightarrow> dep_id x = dep_id d"
      unfolding move_unshared_def by blast
    with xm mv have "dep_id x = dep_id d" by simp
    with dm(2) ni show False by simp
  qed
  with ni d' have eq: "d' = x" by simp
  from dn x sx obtain mv0 where mv0: "mv0 \<in> set (env_moves e)" "dep_move_id x = Some (am_id mv0)"
    "am_state mv0 = Posted"
    unfolding done_ok_def by blast
  with nm have "am_id mv0 \<noteq> m" by auto
  with mv0(1) have "mv0 \<in> set (env_moves (reverted e i m))" by (simp add: reverted_def)
  with mv0(2,3) eq
  show "\<exists>mv \<in> set (env_moves (reverted e i m)). dep_move_id d' = Some (am_id mv) \<and> am_state mv = Posted"
    by blast
  fix l
  assume "l \<in> set (check_payment_ids (reverted e i m) (dep_id d'))"
  then have l: "l \<in> set (set_reconciled False ?ids (env_lines e))"
    and lc: "aml_check_deposit_id l = Some (dep_id x)"
    by (simp_all add: check_payment_ids_def reverted_def eq)
  from l obtain y where y: "y \<in> set (env_lines e)"
    and ly: "l = (if aml_id y \<in> set ?ids then y\<lparr>aml_reconciled := False\<rparr> else y)"
    by (auto simp: set_reconciled_def)
  from ly lc have yc: "aml_check_deposit_id y = Some (dep_id x)" by (simp split: if_splits)
  have "aml_id y \<notin> set ?ids"
  proof
    assume "aml_id y \<in> set ?ids"
    then obtain z where z: "z \<in> set (env_lines e)" "aml_check_deposit_id z = Some i"
      "aml_id z = aml_id y"
      by (auto simp: check_payment_ids_def)
    from dist have "inj_on aml_id (set (env_lines e))" by (simp add: distinct_map)
    with z(1,3) y have "z = y" by (auto dest: inj_onD)
    with z(2) yc ni show False by simp
  qed
  with ly have "l = y" by simp
  with y yc have "l \<in> set (check_payment_ids e (dep_id x))" by (simp add: check_payment_ids_def)
  with dn x sx show "aml_reconciled l"
    unfolding done_ok_def by blast
qed

lemma unlink_Inr:
  assumes "unlink e ids = Inr e'"
  shows "e' = super_unlink e ids"
  using assms by (auto simp: unlink_def split: sum.splits list.splits)

lemma super_unlink_line:
  assumes "l \<in> set (env_lines (super_unlink e ids))"
  obtains y where "y \<in> set (env_lines e)" "l = y \<or> l = y\<lparr>aml_check_deposit_id := None\<rparr>"
  using assms by (auto simp: super_unlink_def split: option.splits if_splits)

lemma super_unlink_ids: "map aml_id (env_lines (super_unlink e ids)) = map aml_id (env_lines e)"
  by (simp add: super_unlink_def comp_def split: option.splits)

lemma db_ok_super_unlink:
  assumes ok: "db_ok e"
  shows "db_ok (super_unlink e ids)"
proof -
  have mv: "\<forall>mv \<in> set (env_moves (super_unlink e ids)). am_id mv < next_move_id (super_unlink e ids)"
    using ok by (simp add: db_ok_def super_unlink_def)
  have ln: "\<forall>l \<in> set (env_lines (super_unlink e ids)).
      aml_id l < next_line_id (super_unlink e ids) \<and> aml_move_id l < next_move_id (super_unlink e ids)"
  proof
    fix l
    assume "l \<in> set (env_lines (super_unlink e ids))"
    then obtain y where "y \<in> set (env_lines e)" "l = y \<or> l = y\<lparr>aml_check_deposit_id := None\<rparr>"
      by (rule super_unlink_line)
    with ok have "aml_id l < next_line_id e \<and> aml_move_id l < next_move_id e"
      by (auto simp: db_ok_def)
    then show "aml_id l < next_line_id (super_unlink e ids) \<and> aml_move_id l < next_move_id (super_unlink e ids)"
      by (simp add: super_unlink_def)
  qed
  have di: "distinct (map aml_id (env_lines (super_unlink e ids)))"
    using ok by (simp add: super_unlink_ids db_ok_def)
  have dp: "\<forall>x \<in> set (env_deposits (super_unlink e ids)).
      dep_id x < next_deposit_id (super_unlink e ids)
      \<and> (\<forall>k \<in> set_option (dep_move_id x). k < next_move_id (super_unlink e ids))"
    using ok by (auto simp: db_ok_def super_unlink_def)
  from mv ln di dp show ?thesis
    unfolding db_ok_def by (intro conjI)
qed

lemma move_unshared_super_unlink:
  assumes un: "move_unshared e"
  shows "move_unshared (super_unlink e ids)"
  unfolding move_unshared_def
proof (intro ballI impI)
  fix d1 d2 k
  assume "d1 \<in> set (env_deposits (super_unlink e ids))" "d2 \<in> set (env_deposits (super_unlink e ids))"
    and k: "k \<in> set_option (dep_move_id d1)" "dep_move_id d2 = Some k"
  then have "d1 \<in> set (env_deposits e)" "d2 \<in> set (env_deposits e)"
    by (simp_all add: super_unlink_def)
  with un have "\<forall>m \<in> set_option (dep_move_id d1). dep_move_id d2 = Some m \<longrightarrow> dep_id d1 = dep_id d2"
    unfolding move_unshared_def by blast
  with k show "dep_id d1 = dep_id d2" by simp
qed

lemma done_ok_super_unlink:
  assumes dn: "done_ok e"
  shows "done_ok (super_unlink e ids)"
  unfolding done_ok_def
proof (intro ballI impI conjI)
  fix d'
  assume "d' \<in> set (env_deposits (super_unlink e ids))" and st: "dep_state d' = DepDone"
  then have d': "d' \<in> set (env_deposits e)" and ni: "dep_id d' \<notin> set ids"
    by (simp_all add: super_unlink_def)
  from dn d' st have "\<exists>mv \<in> set (env_moves e). dep_move_id d' = Some (am_id mv) \<and> am_state mv = Posted"
    unfolding done_ok_def by blast
  then show "\<exists>mv \<in> set (env_moves (super_unlink e ids)). dep_move_id d' = Some (am_id mv) \<and> am_state mv = Posted"
    by (simp add: super_unlink_def)
  fix l
  assume "l \<in> set (check_payment_ids (super_unlink e ids) (dep_id d'))"
  then have l: "l \<in> set (env_lines (super_unlink e ids))"
    and lc: "aml_check_deposit_id l = Some (dep_id d')"
    by (simp_all add: check_payment_ids_def)
  from l obtain y where y: "y \<in> set (env_lines e)" "l = y \<or> l = y\<lparr>aml_check_deposit_id := None\<rparr>"
    by (rule super_unlink_line)
  with lc have "l = y" by auto
  with y(1) lc have "l \<in> set (check_payment_ids e (dep_id d'))"
    by (simp add: check_payment_ids_def)
  with dn d' st show "aml_reconciled l"
    unfolding done_ok_def by blast
qed

lemma compute_deposit:
  assumes "d' \<in> set (env_deposits (compute_check_deposit e ids))"
  obtains x where "x \<in> set (env_deposits e)" "dep_id d' = dep_id x" "dep_state d' = dep_state x"
    "dep_move_id d' = dep_move_id x"
  using assms by (auto simp: compute_check_deposit_def Let_def split: if_splits)

lemma compute_rest:
  "env_moves (compute_check_deposit e ids) = env_moves e"
  "env_lines (compute_check_deposit e ids) = env_lines e"
  "next_move_id (compute_check_deposit e ids) = next_move_id e"
  "next_line_id (compute_check_deposit e ids) = next_line_id e"
  "next_deposit_id (compute_check_deposit e ids) = next_deposit_id e"
  by (simp_all add: compute_check_deposit_def Let_def)

lemma db_ok_compute:
  assumes ok: "db_ok e"
  shows "db_ok (compute_check_deposit e ids)"
proof -
  have dp: "\<forall>x \<in> set (env_deposits (compute_check_deposit e ids)).
      dep_id x < next_deposit_id e \<and> (\<forall>k \<in> set_option (dep_move_id x). k < next_move_id e)"
  proof
    fix d'
    assume "d' \<in> set (env_deposits (compute_check_deposit e ids))"
    then obtain x where "x \<in> set (env_deposits e)" "dep_id d' = dep_id x" "dep_move_id d' = dep_move_id x"
      by (rule compute_deposit)
    with ok show "dep_id d' < next_deposit_id e \<and> (\<forall>k \<in> set_option (dep_move_id d'). k < next_move_id e)"
      by (simp add: db_ok_def)
  qed
  with ok show ?thesis
    by (simp add: db_ok_def compute_rest)
qed

lemma move_unshared_compute:
  assumes un: "move_unshared e"
  shows "move_unshared (compute_check_deposit e ids)"
  unfolding move_unshared_def
proof (intro ballI impI)
  fix d1 d2 k
  assume d1: "d1 \<in> set (env_deposits (compute_check_deposit e ids))"
    and d2: "d2 \<in> set (env_deposits (compute_check_deposit e ids))"
    and k: "k \<in> set_option (dep_move_id d1)" "dep_move_id d2 = Some k"
  from d1 obtain x1 where x1: "x1 \<in> set (env_deposits e)" "dep_id d1 = dep_id x1"
    "dep_move_id d1 = dep_move_id x1" by (rule compute_deposit)
  from d2 obtain x2 where x2: "x2 \<in> set (env_deposits e)" "dep_id d2 = dep_id x2"
    "dep_move_id d2 = dep_move_id x2" by (rule compute_deposit)
  from un x1(1) x2(1)
  have "\<forall>m \<in> set_option (dep_move_id x1). dep_move_id x2 = Some m \<longrightarrow> dep_id x1 = dep_id x2"
    unfolding move_unshared_def by blast
  with k x1 x2 show "dep_id d1 = dep_id d2" by simp
qed

lemma done_ok_compute:
  assumes dn: "done_ok e"
  shows "done_ok (compute_check_deposit e ids)"
  unfolding done_ok_def
proof (intro ballI impI)
  fix d'
  assume mem: "d' \<in> set (env_deposits (compute_check_deposit e ids))" and st: "dep_state d' = DepDone"
  from mem obtain x where x: "x \<in> set (env_deposits e)" "dep_id d' = dep_id x" "dep_state d' = dep_state x"
    "dep_move_id d' = dep_move_id x" by (rule compute_deposit)
  with dn st
  have "(\<exists>mv \<in> set (env_moves e). dep_move_id x = Some (am_id mv) \<and> am_state mv = Posted)
      \<and> (\<forall>l \<in> set (check_payment_ids e (dep_id x)). aml_reconciled l)"
    unfolding done_ok_def by simp
  with x show "(\<exists>mv \<in> set (env_moves (compute_check_deposit e ids)).
          dep_move_id d' = Some (am_id mv) \<and> am_state mv = Posted)
      \<and> (\<forall>l \<in> set (check_payment_ids (compute_check_deposit e ids) (dep_id d')). aml_reconciled l)"
    by (simp add: compute_rest)
qed

lemma insert_deposit_line:
  assumes "l \<in> set (env_lines (insert_deposit e name c vals acc))"
  obtains y where "y \<in> set (env_lines e)"
    "l = y \<or> l = y\<lparr>aml_check_deposit_id := Some (next_deposit_id e)\<rparr>"
  using assms by (auto simp: insert_deposit_def split: if_splits)

lemma insert_deposit_deposit:
  assumes "d' \<in> set (env_deposits (insert_deposit e name c vals acc))"
    and "draft_vals vals"
  shows "d' \<in> set (env_deposits e) \<or> (dep_state d' = DepDraft \<and> dep_move_id d' = None
      \<and> dep_id d' = next_deposit_id e)"
  using assms by (auto simp: insert_deposit_def draft_vals_def)

lemma db_ok_insert_deposit:
  assumes ok: "db_ok e" and kd: "draft_vals vals"
  shows "db_ok (insert_deposit e name c vals acc)"
proof -
  let ?e' = "insert_deposit e name c vals acc"
  have mv: "\<forall>mv \<in> set (env_moves ?e'). am_id mv < next_move_id ?e'"
    using ok by (simp add: db_ok_def insert_deposit_def)
  have ln: "\<forall>l \<in> set (env_lines ?e'). aml_id l < next_line_id ?e' \<and> aml_move_id l < next_move_id ?e'"
  proof
    fix l
    assume "l \<in> set (env_lines ?e')"
    then obtain y where "y \<in> set (env_lines e)"
      "l = y \<or> l = y\<lparr>aml_check_deposit_id := Some (next_deposit_id e)\<rparr>"
      by (rule insert_deposit_line)
    with ok have "aml_id l < next_line_id e \<and> aml_move_id l < next_move_id e"
      by (auto simp: db_ok_def)
    then show "aml_id l < next_line_id ?e' \<and> aml_move_id l < next_move_id ?e'"
      by (simp add: insert_deposit_def)
  qed
  have "map aml_id (env_lines ?e') = map aml_id (env_lines e)"
    by (simp add: insert_deposit_def comp_def)
  with ok have di: "distinct (map aml_id (env_lines ?e'))"
    by (simp add: db_ok_def)
  have dp: "\<forall>x \<in> set (env_deposits ?e'). dep_id x < next_deposit_id ?e'
      \<and> (\<forall>k \<in> set_option (dep_move_id x). k < next_move_id ?e')"
  proof
    fix x
    assume "x \<in> set (env_deposits ?e')"
    from insert_deposit_deposit [OF this kd] ok
    have "dep_id x < Suc (next_deposit_id e) \<and> (\<forall>k \<in> set_option (dep_move_id x). k < next_move_id e)"
      by (auto simp: db_ok_def less_Suc_eq)
    then show "dep_id x < next_deposit_id ?e' \<and> (\<forall>k \<in> set_option (dep_move_id x). k < next_move_id ?e')"
      by (simp add: insert_deposit_def)
  qed
  from mv ln di dp show ?thesis
    unfolding db_ok_def by (intro conjI)
qed

lemma move_unshared_insert_deposit:
  assumes un: "move_unshared e" and kd: "draft_vals vals"
  shows "move_unshared (insert_deposit e name c vals acc)"
  unfolding move_unshared_def
proof (intro ballI impI)
  fix d1 d2 k
  assume d1: "d1 \<in> set (env_deposits (insert_deposit e name c vals acc))"
    and d2: "d2 \<in> set (env_deposits (insert_deposit e name c vals acc))"
    and k: "k \<in> set_option (dep_move_id d1)" "dep_move_id d2 = Some k"
  from insert_deposit_deposit [OF d1 kd] k(1) have x1: "d1 \<in> set (env_deposits e)" by auto
  from insert_deposit_deposit [OF d2 kd] k(2) have x2: "d2 \<in> set (env_deposits e)" by auto
  from un x1 x2
  have "\<forall>m \<in> set_option (dep_move_id d1). dep_move_id d2 = Some m \<longrightarrow> dep_id d1 = dep_id d2"
    unfolding move_unshared_def by blast
  with k show "dep_id d1 = dep_id d2" by simp
qed

lemma done_ok_insert_deposit:
  assumes dn: "done_ok e" and ok: "db_ok e" and kd: "draft_vals vals"
  shows "done_ok (insert_deposit e name c vals acc)"
  unfolding done_ok_def
proof (intro ballI impI conjI)
  fix d'
  let ?e' = "insert_deposit e name c vals acc"
  assume mem: "d' \<in> set (env_deposits ?e')" and st: "dep_state d' = DepDone"
  from insert_deposit_deposit [OF mem kd] st have d': "d' \<in> set (env_deposits e)" by auto
  with ok have lt: "dep_id d' < next_deposit_id e" by (simp add: db_ok_def)
  from dn d' st have "\<exists>mv \<in> set (env_moves e). dep_move_id d' = Some (am_id mv) \<and> am_state mv = Posted"
    unfolding done_ok_def by blast
  then show "\<exists>mv \<in> set (env_moves ?e'). dep_move_id d' = Some (am_id mv) \<and> am_state mv = Posted"
    by (simp add: insert_deposit_def)
  fix l
  assume "l \<in> set (check_payment_ids ?e' (dep_id d'))"
  then have l: "l \<in> set (env_lines ?e')" and lc: "aml_check_deposit_id l = Some (dep_id d')"
    by (simp_all add: check_payment_ids_def)
  from l obtain y where y: "y \<in> set (env_lines e)"
    "l = y \<or> l = y\<lparr>aml_check_deposit_id := Some (next_deposit_id e)\<rparr>"
    by (rule insert_deposit_line)
  with lc lt have "l = y" by auto
  with y(1) lc have "l \<in> set (check_payment_ids e (dep_id d'))"
    by (simp add: check_payment_ids_def)
  with dn d' st show "aml_reconciled l"
    unfolding done_ok_def by blast
qed

lemma super_create_Inr:
  assumes "super_create e name c vals = Inr e'"
  obtains acc where "e' = compute_check_deposit (insert_deposit e name c vals acc) [next_deposit_id e]"
  using assms
  by (auto simp: super_create_def Let_def split: if_splits sum.splits)

lemma create_Inr:
  assumes "create e vals = Inr e'"
  obtains s name c acc where
    "e' = compute_check_deposit (insert_deposit (e\<lparr>seq_next := s\<rparr>) name c vals acc) [next_deposit_id e]"
proof -
  from assms obtain e0 name c where sc: "super_create e0 name c vals = Inr e'"
    and e0: "e0 = e \<or> (\<exists>s. e0 = e\<lparr>seq_next := s\<rparr>)"
    by (auto simp: create_def Let_def split: if_splits)
  from e0 obtain s where s: "e0 = e\<lparr>seq_next := s\<rparr>"
  proof
    assume "e0 = e"
    then have "e0 = e\<lparr>seq_next := seq_next e\<rparr>" by simp
    then show ?thesis by (rule that)
  next
    assume "\<exists>s. e0 = e\<lparr>seq_next := s\<rparr>"
    then show ?thesis using that by blast
  qed
  from sc obtain acc where
    "e' = compute_check_deposit (insert_deposit e0 name c vals acc) [next_deposit_id e0]"
    by (rule super_create_Inr)
  with s have "e' = compute_check_deposit (insert_deposit (e\<lparr>seq_next := s\<rparr>) name c vals acc)
      [next_deposit_id e]"
    by simp
  then show ?thesis by (rule that)
qed

lemma inv_seq_next:
  "db_ok (e\<lparr>seq_next := s\<rparr>) = db_ok e"
  "move_unshared (e\<lparr>seq_next := s\<rparr>) = move_unshared e"
  "done_ok (e\<lparr>seq_next := s\<rparr>) = done_ok e"
  by (simp_all add: db_ok_def move_unshared_def done_ok_def check_payment_ids_def)

lemma inv_create:
  assumes inv: "workflow_inv e" and kd: "draft_vals vals" and run: "create e vals = Inr e'"
  shows "workflow_inv e'"
proof -
  from run obtain s name c acc where
    e': "e' = compute_check_deposit (insert_deposit (e\<lparr>seq_next := s\<rparr>) name c vals acc) [next_deposit_id e]"
    by (rule create_Inr)
  from inv have "db_ok (e\<lparr>seq_next := s\<rparr>)" "move_unshared (e\<lparr>seq_next := s\<rparr>)"
    "done_ok (e\<lparr>seq_next := s\<rparr>)"
    by (simp_all add: workflow_inv_def inv_seq_next)
  with kd show ?thesis
    unfolding workflow_inv_def e'
    by (intro conjI db_ok_compute move_unshared_compute done_ok_compute db_ok_insert_deposit
        move_unshared_insert_deposit done_ok_insert_deposit)
qed

lemma inv_validate_deposit:
  "workflow_inv e \<Longrightarrow> validate_deposit e ids = Inr e' \<Longrightarrow> workflow_inv e'"
proof (induction ids arbitrary: e)
  case Nil
  then show ?case by simp
next
  case (Cons i ids)
  from Cons.prems(2) obtain e1 where one: "validate_one e i = Inr e1"
    and rest: "validate_deposit e1 ids = Inr e'"
    by (auto split: sum.splits)
  from one obtain d a where "e1 = validated e i d a" by (rule validate_one_Inr)
  with Cons.prems(1) have "workflow_inv e1"
    by (simp add: workflow_inv_def db_ok_validated move_unshared_validated done_ok_validated)
  from Cons.IH [OF this rest] show ?case .
qed

lemma inv_backtodraft:
  "workflow_inv e \<Longrightarrow> backtodraft e ids = Inr e' \<Longrightarrow> workflow_inv e'"
proof (induction ids arbitrary: e)
  case Nil
  then show ?case by simp
next
  case (Cons i ids)
  from Cons.prems(2) obtain e1 where one: "backtodraft_one e i = Inr e1"
    and rest: "backtodraft e1 ids = Inr e'"
    by (auto split: sum.splits)
  from Cons.prems(1) have ok: "db_ok e" and un: "move_unshared e" and dn: "done_ok e"
    by (simp_all add: workflow_inv_def)
  from ok have dist: "distinct (map aml_id (env_lines e))" by (simp add: db_ok_def)
  from one dist have "workflow_inv e1"
  proof (cases rule: backtodraft_one_Inr)
    case (no_move d)
    with ok un dn show ?thesis
      by (simp add: workflow_inv_def db_ok_draft move_unshared_draft done_ok_draft)
  next
    case (with_move d m)
    with ok un dn dist show ?thesis
      by (simp add: workflow_inv_def db_ok_reverted move_unshared_reverted
          done_ok_reverted [OF dn un dist with_move(1,2)])
  qed
  from Cons.IH [OF this rest] show ?case .
qed

lemma inv_unlink:
  assumes "workflow_inv e" and "unlink e ids = Inr e'"
  shows "workflow_inv e'"
proof -
  from assms(2) have "e' = super_unlink e ids" by (rule unlink_Inr)
  with assms(1) show ?thesis
    by (simp add: workflow_inv_def db_ok_super_unlink move_unshared_super_unlink
        done_ok_super_unlink)
qed

lemma reachable_inv: "reachable draft_vals e \<Longrightarrow> workflow_inv e"
proof (induction rule: reachable.induct)
  case (initial e)
  then show ?case
    by (auto simp: workflow_inv_def move_unshared_def done_ok_def)
next
  case (by_create e vals e')
  then show ?case by (simp add: inv_create)
next
  case (by_validate_deposit e ids e')
  then show ?case by (simp add: inv_validate_deposit)
next
  case (by_backtodraft e ids e')
  then show ?case by (simp add: inv_backtodraft)
next
  case (by_unlink e ids e')
  then show ?case by (simp add: inv_unlink)
qed

lemma list_all2_mem2:
  "list_all2 P xs ys \<Longrightarrow> y \<in> set ys \<Longrightarrow> \<exists>x \<in> set xs. P x y"
  by (induction rule: list_all2_induct) auto

lemma list_all2_find:
  assumes "list_all2 R xs ys" and "\<And>x y. R x y \<Longrightarrow> P y = P x" and "find P xs = Some x"
  shows "\<exists>y. find P ys = Some y \<and> R x y"
  using assms
proof (induction arbitrary: x rule: list_all2_induct)
  case Nil
  then show ?case by simp
next
  case (Cons a as b bs)
  show ?case
  proof (cases "P a")
    case True
    with Cons.hyps(1) Cons.prems(1) have "P b" by simp
    with True Cons.prems(2) Cons.hyps(1) show ?thesis by simp
  next
    case False
    with Cons.hyps(1) Cons.prems(1) have nb: "\<not> P b" by simp
    from False Cons.prems(2) have "find P as = Some x" by simp
    from Cons.IH [OF Cons.prems(1) this] nb show ?thesis by simp
  qed
qed

lemma validated_deposits_rel:
  "list_all2 (\<lambda>x y. dep_id y = dep_id x
        \<and> (dep_state x = DepDone \<or> dep_id x = i \<longrightarrow> dep_state y = DepDone))
     (env_deposits e) (env_deposits (validated e i d a))"
  by (simp add: validated_def list_all2_map2 list_all2_same)

lemma validate_deposit_rel:
  "validate_deposit e ids = Inr e' \<Longrightarrow>
   list_all2 (\<lambda>x y. dep_id y = dep_id x
        \<and> (dep_state x = DepDone \<or> dep_id x \<in> set ids \<longrightarrow> dep_state y = DepDone))
     (env_deposits e) (env_deposits e')"
proof (induction ids arbitrary: e)
  case Nil
  then show ?case by (simp add: list_all2_same)
next
  case (Cons i ids)
  from Cons.prems obtain e1 where one: "validate_one e i = Inr e1"
    and rest: "validate_deposit e1 ids = Inr e'"
    by (auto split: sum.splits)
  from one obtain d a where e1: "e1 = validated e i d a" by (rule validate_one_Inr)
  have r1: "list_all2 (\<lambda>x y. dep_id y = dep_id x
        \<and> (dep_state x = DepDone \<or> dep_id x = i \<longrightarrow> dep_state y = DepDone))
     (env_deposits e) (env_deposits e1)"
    unfolding e1 by (rule validated_deposits_rel)
  note r2 = Cons.IH [OF rest]
  show ?case
    by (rule list_all2_trans [OF _ r1 r2]) auto
qed

lemma validate_deposit_done:
  assumes "validate_deposit e ids = Inr e'"
  shows "\<forall>d \<in> set (env_deposits e'). dep_id d \<in> set ids \<longrightarrow> dep_state d = DepDone"
proof (intro ballI impI)
  fix d
  assume d: "d \<in> set (env_deposits e')" and i: "dep_id d \<in> set ids"
  from list_all2_mem2 [OF validate_deposit_rel [OF assms] d] i
  show "dep_state d = DepDone" by auto
qed

lemma validate_deposit_keeps_done:
  assumes run: "validate_deposit e ids = Inr e'"
    and dep: "get_deposit e i = Some d" and st: "dep_state d = DepDone"
  shows "map_option dep_state (get_deposit e' i) = Some DepDone"
proof -
  from dep have f: "find (\<lambda>x. dep_id x = i) (env_deposits e) = Some d"
    by (simp add: get_deposit_def)
  have "\<exists>y. find (\<lambda>x. dep_id x = i) (env_deposits e') = Some y
      \<and> (dep_id y = dep_id d \<and> (dep_state d = DepDone \<or> dep_id d \<in> set ids \<longrightarrow> dep_state y = DepDone))"
    by (rule list_all2_find [OF validate_deposit_rel [OF run] _ f]) simp
  with st show ?thesis by (auto simp: get_deposit_def)
qed

lemma unlink_keeps_done:
  assumes run: "unlink e ids = Inr e'"
    and dep: "get_deposit e i = Some d" and st: "dep_state d = DepDone"
  shows "get_deposit e' i = Some d"
proof -
  have notin: "i \<notin> set ids"
  proof
    assume "i \<in> set ids"
    from unlink_done_in_batch [OF this dep st] run show False by simp
  qed
  from run have "e' = super_unlink e ids" by (rule unlink_Inr)
  then have "get_deposit e' i = find (\<lambda>x. dep_id x = i) (filter (\<lambda>x. dep_id x \<notin> set ids) (env_deposits e))"
    by (simp add: get_deposit_def super_unlink_def)
  also have "\<dots> = find (\<lambda>x. dep_id x = i) (env_deposits e)"
    using notin by (intro find_filter_keep) simp
  finally show ?thesis using dep by (simp add: get_deposit_def)
qed

lemma find_append_found: "find P xs = Some x \<Longrightarrow> find P (xs @ ys) = Some x"
  by (induction xs) (auto split: if_splits)

lemma compute_deposits_map:
  "\<exists>h. env_deposits (compute_check_deposit e ids) = map h (env_deposits e)
     \<and> (\<forall>x. dep_id (h x) = dep_id x \<and> dep_state (h x) = dep_state x)"
proof -
  let ?md = "mapped_data (read_group e ids)"
  let ?h = "\<lambda>deposit.
      if dep_id deposit \<in> set ids
      then deposit
             \<lparr>dep_total_amount :=
                (if comp_currency_id (companies e (dep_company_id deposit)) \<noteq> dep_currency_id deposit
                 then (case ?md (dep_id deposit) of None \<Rightarrow> 0 | Some r \<Rightarrow> md_amount_currency r)
                 else (case ?md (dep_id deposit) of None \<Rightarrow> 0 | Some r \<Rightarrow> md_debit r)),
              dep_check_count := (case ?md (dep_id deposit) of None \<Rightarrow> 0 | Some r \<Rightarrow> md_count r)\<rparr>
      else deposit"
  have "env_deposits (compute_check_deposit e ids) = map ?h (env_deposits e)"
    by (simp add: compute_check_deposit_def Let_def)
  moreover have "\<forall>x. dep_id (?h x) = dep_id x \<and> dep_state (?h x) = dep_state x"
    by simp
  ultimately have "env_deposits (compute_check_deposit e ids) = map ?h (env_deposits e)
     \<and> (\<forall>x. dep_id (?h x) = dep_id x \<and> dep_state (?h x) = dep_state x)"
    by (rule conjI)
  then show ?thesis by (rule exI [of _ ?h])
qed

lemma create_keeps_done:
  assumes run: "create e vals = Inr e'"
    and dep: "get_deposit e i = Some d" and st: "dep_state d = DepDone"
  shows "map_option dep_state (get_deposit e' i) = Some DepDone"
proof -
  from run obtain s name c acc where
    e': "e' = compute_check_deposit (insert_deposit (e\<lparr>seq_next := s\<rparr>) name c vals acc) [next_deposit_id e]"
    by (rule create_Inr)
  let ?e1 = "insert_deposit (e\<lparr>seq_next := s\<rparr>) name c vals acc"
  from dep have "find (\<lambda>x. dep_id x = i) (env_deposits ?e1) = Some d"
    by (simp add: get_deposit_def insert_deposit_def find_append_found)
  moreover obtain h where h: "env_deposits e' = map h (env_deposits ?e1)"
    "\<forall>x. dep_id (h x) = dep_id x \<and> dep_state (h x) = dep_state x"
    unfolding e' using compute_deposits_map by blast
  moreover have "find (\<lambda>x. dep_id x = i) (map h (env_deposits ?e1)) =
      map_option h (find (\<lambda>x. dep_id x = i) (env_deposits ?e1))"
    by (rule find_map_keep) (simp add: h(2))
  ultimately have "get_deposit e' i = Some (h d)"
    by (simp add: get_deposit_def)
  with h(2) st show ?thesis by simp
qed

section \<open>Facts about the small database\<close>

lemma demo_db_ok: "db_ok demo_env"
  by (simp add: db_ok_def demo_env_def demo_check_def demo_deposit_def)

lemma demo_get_deposit: "get_deposit demo_env 1 = Some demo_deposit"
  by (simp add: get_deposit_def demo_env_def demo_deposit_def)

lemma demo_check_payment_ids:
  "check_payment_ids demo_env 1 = [demo_check 1 100 ''CHK1'', demo_check 2 50 ''CHK2'']"
  by (simp add: check_payment_ids_def demo_env_def demo_check_def)

lemma demo_positive: "\<forall>l \<in> set (check_payment_ids demo_env 1). aml_debit l > 0"
  unfolding demo_check_payment_ids by (simp add: demo_check_def)

lemma demo_done_get_deposit:
  "get_deposit demo_env_done 1 = Some demo_done_deposit"
  "get_deposit demo_env_done 2 = Some demo_draft_deposit"
  by (simp_all add: get_deposit_def demo_env_done_def demo_done_deposit_def demo_draft_deposit_def
      demo_deposit_def)

lemma demo_done_states:
  "dep_state demo_done_deposit = DepDone" "dep_state demo_draft_deposit = DepDraft"
  "dep_name demo_done_deposit = ''DEP1''" "dep_name demo_draft_deposit = ''DEP2''"
  by (simp_all add: demo_done_deposit_def demo_draft_deposit_def demo_deposit_def)

lemma demo_counterpart_account: "counterpart_account demo_env demo_deposit = Some 30"
  by (simp add: counterpart_account_def demo_env_def demo_deposit_def demo_journals_def)

lemma rat_zero_neutral: "zero_neutral TYPE(rat)"
  by (simp add: zero_neutral_def)

lemma coarse_zero_neutral: "zero_neutral TYPE(coarse)"
  unfolding zero_neutral_def
proof (intro allI conjI)
  fix x :: coarse
  show "0 + x = x" by (simp add: plus_coarse_def zero_coarse_def)
  show "x + 0 = x" by (cases x) (simp add: plus_coarse_def zero_coarse_def)
qed

lemma coarse_not_associative:
  "(Coarse 100 + Coarse 5) + Coarse 5 = Coarse 100 \<and> Coarse 100 + (Coarse 5 + Coarse 5) = Coarse 110"
  by (simp add: plus_coarse_def round_amount_def)

lemma demo_validate: "validate_deposit demo_env [1] = Inr demo_env_validated"
  unfolding demo_env_validated_def validate_deposit_single
  by (rule validate_one_ok [OF demo_get_deposit demo_positive demo_counterpart_account
        db_ok_fresh [OF demo_db_ok] rat_zero_neutral])

lemma demo_validated_ok: "db_ok demo_env_validated"
  unfolding demo_env_validated_def by (rule db_ok_validated [OF demo_db_ok])

lemma demo_validated_deposit:
  "get_deposit demo_env_validated 1 = Some (demo_deposit\<lparr>dep_state := DepDone, dep_move_id := Some 2\<rparr>)"
  by (simp add: get_deposit_def demo_env_validated_def validated_def demo_env_def demo_deposit_def)

lemma demo_validated_move:
  "get_move demo_env_validated 2 =
     Some \<lparr>am_id = 2, am_journal_id = 1, am_date = 101, am_ref = ''Check Deposit DEP1'',
           am_company_id = 1, am_state = Posted\<rparr>"
  by (simp add: get_move_def demo_env_validated_def validated_def demo_env_def demo_deposit_def)

lemma demo_validated_checks:
  "check_payment_ids demo_env_validated 1 =
     [(demo_check 1 100 ''CHK1'')\<lparr>aml_reconciled := True\<rparr>,
      (demo_check 2 50 ''CHK2'')\<lparr>aml_reconciled := True\<rparr>]"
proof -
  have n: "next_line_id demo_env = 3" by (simp add: demo_env_def)
  show ?thesis
    unfolding demo_env_validated_def check_payment_ids_validated demo_check_payment_ids n
    by (simp add: set_reconciled_def pair_ids_def demo_check_def)
qed

lemma demo_initial:
  "\<forall>d \<in> set (env_deposits demo_env). dep_state d = DepDraft \<and> dep_move_id d = None"
  by (simp add: demo_env_def demo_deposit_def)

lemma demo_validated_deposits:
  "env_deposits demo_env_validated = [demo_deposit\<lparr>dep_state := DepDone, dep_move_id := Some 2\<rparr>]"
  by (simp add: demo_env_validated_def validated_def demo_env_def demo_deposit_def)

lemma demo_done_unlink: "unlink demo_env_done [2] = Inr (super_unlink demo_env_done [2])"
  by (simp add: unlink_def demo_done_get_deposit demo_done_states)

lemma demo_in_hand: "compute_in_hand_check_account_id demo_env 1 = Inr (Some 10)"
  by (simp add: compute_in_hand_check_account_id_def manual_accounts_def demo_env_def demo_journals_def)

lemma demo_create_done:
  "create demo_env demo_vals_done =
     Inr (compute_check_deposit
            (insert_deposit (demo_env\<lparr>seq_next := (seq_next demo_env)(1 := 2)\<rparr>) ''DEP/I'' 1
               demo_vals_done (Some 10)) [2])"
proof -
  let ?e0 = "demo_env\<lparr>seq_next := (seq_next demo_env)(1 := 2)\<rparr>"
  let ?e1 = "insert_deposit ?e0 ''DEP/I'' 1 demo_vals_done (Some 10)"
  have v: "cv_name demo_vals_done = None" "cv_company_id demo_vals_done = Some 1"
    "cv_deposit_date demo_vals_done = None" "cv_journal_id demo_vals_done = Some 1"
    "cv_move_id demo_vals_done = None" "cv_currency_id demo_vals_done = Some 1"
    "cv_bank_journal_id demo_vals_done = Some 2"
    "cv_check_payment_ids demo_vals_done = [2]"
    by (simp_all add: demo_vals_done_def demo_vals_def)
  have name: "seq_render demo_env 1 (seq_next demo_env 1) None = ''DEP/I''"
    and nxt: "Suc (seq_next demo_env 1) = 2" "next_deposit_id ?e0 = 2"
    by (simp_all add: demo_env_def)
  have uniq: "\<not> (\<exists>d \<in> set (env_deposits ?e0). dep_company_id d = 1 \<and> dep_name d = ''DEP/I'')"
    by (simp add: demo_env_def demo_deposit_def)
  have acc: "compute_in_hand_check_account_id ?e0 1 = Inr (Some 10)"
    using demo_in_hand by (simp add: compute_in_hand_check_account_id_def)
  have dep: "get_deposit (compute_check_deposit ?e1 [2]) 2 =
      Some (last (env_deposits (compute_check_deposit ?e1 [2])))"
    by (simp add: get_deposit_def compute_check_deposit_def Let_def insert_deposit_def demo_env_def
        demo_deposit_def)
  have cur: "dep_currency_id (last (env_deposits (compute_check_deposit ?e1 [2]))) = 1"
    by (simp add: compute_check_deposit_def Let_def insert_deposit_def v)
  have cs: "check_payment_ids ?e1 2 = [(demo_check 2 50 ''CHK2'')\<lparr>aml_check_deposit_id := Some 2\<rparr>]"
    by (simp add: check_payment_ids_def insert_deposit_def demo_env_def demo_check_def v)
  have "check_lines (compute_check_deposit ?e1 [2])
          (last (env_deposits (compute_check_deposit ?e1 [2])))
          [(demo_check 2 50 ''CHK2'')\<lparr>aml_check_deposit_id := Some 2\<rparr>] = Inr ()"
    unfolding check_lines.simps cur by (simp add: demo_check_def)
  then have chk: "check_deposit (compute_check_deposit ?e1 [2]) [2] = Inr ()"
    by (simp add: dep cs del: One_nat_def)
  show ?thesis
    unfolding create_def super_create_def Let_def v option.case name nxt
    using uniq acc chk by (simp add: nxt del: One_nat_def)
qed

lemma demo_validated_master:
  "journals demo_env_validated = journals demo_env"
  "seq_render demo_env_validated = seq_render demo_env"
  "seq_next demo_env_validated = seq_next demo_env"
  "next_deposit_id demo_env_validated = 2"
  "today demo_env_validated = 101"
  by (simp_all add: demo_env_validated_def validated_def demo_env_def)

lemma demo_validated_moves:
  "env_moves demo_env_validated =
     [\<lparr>am_id = 1, am_journal_id = 1, am_date = 100, am_ref = ''PAY'', am_company_id = 1,
       am_state = Posted\<rparr>,
      \<lparr>am_id = 2, am_journal_id = 1, am_date = 101, am_ref = ''Check Deposit DEP1'',
       am_company_id = 1, am_state = Posted\<rparr>]"
  by (simp add: demo_env_validated_def validated_def demo_env_def demo_deposit_def)

lemma demo_validated_attached:
  "map aml_check_deposit_id (env_lines demo_env_validated) = [Some 1, Some 1, None, None, None]"
  by (simp add: demo_env_validated_def validated_def demo_env_def demo_check_def set_reconciled_def
      offset_lines_of_def offset_line_def counterpart_line_def check_payment_ids_def comp_def)

lemma demo_create_move:
  "create demo_env_validated demo_vals_move =
     Inr (compute_check_deposit
            (insert_deposit (demo_env_validated\<lparr>seq_next := (seq_next demo_env)(1 := 2)\<rparr>) ''DEP/I'' 1
               demo_vals_move (Some 10)) [2])"
proof -
  let ?e0 = "demo_env_validated\<lparr>seq_next := (seq_next demo_env)(1 := 2)\<rparr>"
  let ?e1 = "insert_deposit ?e0 ''DEP/I'' 1 demo_vals_move (Some 10)"
  have v: "cv_name demo_vals_move = None" "cv_company_id demo_vals_move = Some 1"
    "cv_deposit_date demo_vals_move = None" "cv_journal_id demo_vals_move = Some 1"
    "cv_move_id demo_vals_move = Some 2" "cv_currency_id demo_vals_move = Some 1"
    "cv_bank_journal_id demo_vals_move = Some 2"
    "cv_check_payment_ids demo_vals_move = []"
    by (simp_all add: demo_vals_move_def demo_vals_def)
  have name: "seq_render demo_env 1 (seq_next demo_env 1) None = ''DEP/I''"
    and nxt: "Suc (seq_next demo_env 1) = 2" "next_deposit_id ?e0 = 2"
    by (simp_all add: demo_validated_master) (simp_all add: demo_env_def)
  have uniq: "\<not> (\<exists>d \<in> set (env_deposits ?e0). dep_company_id d = 1 \<and> dep_name d = ''DEP/I'')"
    by (simp add: demo_validated_deposits demo_deposit_def)
  have fk: "get_move ?e0 2 \<noteq> None"
    using demo_validated_move by (simp add: get_move_def)
  have acc: "compute_in_hand_check_account_id ?e0 1 = Inr (Some 10)"
    using demo_in_hand by (simp add: compute_in_hand_check_account_id_def demo_validated_master)
  have dep: "get_deposit (compute_check_deposit ?e1 [2]) 2 \<noteq> None"
    by (simp add: get_deposit_def compute_check_deposit_def Let_def insert_deposit_def
        demo_validated_deposits demo_validated_master demo_deposit_def)
  have "filter (\<lambda>l. aml_check_deposit_id l = Some 2) (env_lines demo_env_validated) = []"
    unfolding filter_empty_conv
  proof
    fix l
    assume "l \<in> set (env_lines demo_env_validated)"
    then have "aml_check_deposit_id l \<in> set (map aml_check_deposit_id (env_lines demo_env_validated))"
      by simp
    then show "\<not> aml_check_deposit_id l = Some 2"
      unfolding demo_validated_attached by auto
  qed
  then have cs: "check_payment_ids ?e1 2 = []"
    by (simp add: check_payment_ids_def insert_deposit_def v)
  have chk: "check_deposit (compute_check_deposit ?e1 [2]) [2] = Inr ()"
    using dep by (auto simp: cs simp del: One_nat_def)
  show ?thesis
    unfolding create_def super_create_def Let_def v option.case demo_validated_master name nxt
    using uniq fk acc chk by (simp add: nxt name demo_validated_master del: One_nat_def)
qed


lemma dep_keys_compute:
  "map dep_key (env_deposits (compute_check_deposit e ids)) = map dep_key (env_deposits e)"
  by (simp add: compute_check_deposit_def Let_def dep_key_def)

lemma dep_keys_reverted:
  "map dep_key (env_deposits (reverted e i m)) =
     map (\<lambda>(j, s, mv). (j, if j = i then DepDraft else s, if mv = Some m then None else mv))
       (map dep_key (env_deposits e))"
  by (simp add: reverted_def dep_key_def)

lemma demo_shared_eq:
  "demo_env_shared =
     compute_check_deposit
       (insert_deposit (demo_env_validated\<lparr>seq_next := (seq_next demo_env)(1 := 2)\<rparr>) ''DEP/I'' 1
          demo_vals_move (Some 10)) [2]"
  by (simp add: demo_env_shared_def demo_create_move commit_def)

lemma demo_shared_keys:
  "map dep_key (env_deposits demo_env_shared) = [(1, DepDone, Some 2), (2, DepDraft, Some 2)]"
  unfolding demo_shared_eq dep_keys_compute
  by (simp add: insert_deposit_def demo_validated_deposits demo_validated_master dep_key_def
      demo_deposit_def demo_vals_move_def demo_vals_def)

lemma demo_shared_run:
  "backtodraft demo_env_shared [2] = Inr (reverted demo_env_shared 2 2)"
proof -
  let ?mv = "\<lparr>am_id = 2, am_journal_id = 1, am_date = 101, am_ref = ''Check Deposit DEP1'',
           am_company_id = 1, am_state = Posted\<rparr>"
  have "map aml_id (env_lines demo_env_shared) = map aml_id (env_lines demo_env_validated)"
    by (simp add: demo_shared_eq compute_check_deposit_def Let_def insert_deposit_def comp_def)
  with demo_validated_ok have dist: "distinct (map aml_id (env_lines demo_env_shared))"
    by (simp add: db_ok_def)
  have "find (\<lambda>d. dep_id d = 2) (env_deposits demo_env_shared) \<noteq> None"
    using demo_shared_keys by (auto simp: find_None_iff dep_key_def)
  then obtain d where dep: "get_deposit demo_env_shared 2 = Some d"
    by (auto simp: get_deposit_def)
  then have "dep_key d \<in> set (map dep_key (env_deposits demo_env_shared))" and "dep_id d = 2"
    by (auto simp: get_deposit_def find_Some_iff)
  then have mv: "dep_move_id d = Some 2"
    unfolding demo_shared_keys by (auto simp: dep_key_def)
  have move: "get_move demo_env_shared 2 = Some ?mv"
    using demo_validated_move
    by (simp add: get_move_def demo_shared_eq compute_check_deposit_def Let_def insert_deposit_def)
  have unl: "am_state ?mv = Posted \<longrightarrow> jr_update_posted (journals demo_env_shared (am_journal_id ?mv))"
    by (simp add: demo_shared_eq compute_check_deposit_def Let_def insert_deposit_def
        demo_validated_master) (simp add: demo_env_def demo_journals_def)
  show ?thesis
    by (simp only: backtodraft_single backtodraft_one_move [OF dist dep mv move unl])
qed

lemma demo_orphaned:
  "map dep_key (env_deposits demo_env_orphaned) = [(1, DepDone, None), (2, DepDraft, None)]"
  "map am_id (env_moves demo_env_orphaned) = [1]"
proof -
  have eq: "demo_env_orphaned = reverted demo_env_shared 2 2"
    unfolding demo_env_orphaned_def demo_shared_run by (simp add: commit_def)
  show "map dep_key (env_deposits demo_env_orphaned) = [(1, DepDone, None), (2, DepDraft, None)]"
    unfolding eq dep_keys_reverted demo_shared_keys by simp
  have "env_moves demo_env_shared = env_moves demo_env_validated"
    by (simp add: demo_shared_eq compute_check_deposit_def Let_def insert_deposit_def)
  then show "map am_id (env_moves demo_env_orphaned) = [1]"
    unfolding eq by (simp add: reverted_def demo_validated_moves)
qed

section \<open>The claims\<close>

subsection \<open>C1: the move of a validated deposit\<close>

text \<open>
  C1, as amended. The claim as stated, for every deposit, fails: \<open>validate_deposit\<close>
  raises, and leaves no move behind, when an attached check line has a debit that is
  not positive, and when no counterpart account is configured. The counterexample that
  follows the theorem shows both on the small database.

  On a consistent database, for a deposit \<open>i\<close> with \<open>N\<close> attached check lines, each of
  positive debit, and a configured counterpart account, \<open>validate_deposit\<close> returns;
  it has added exactly one move, which is posted and has \<open>N + 1\<close> lines: the \<open>k\<close>-th
  offsets the \<open>k\<close>-th check line (credit equal to the check's debit, debit 0, amount in
  currency times \<open>-1\<close>, same account, partner and currency), and the last one is the
  counterpart, whose debit is the total of the checks' debits, accumulated from zero
  in the order of the lines, and whose credit is 0. The debits and the credits of the
  move, added up in the order of its lines, give the same total. The amounts are of any
  arithmetic in which adding zero changes nothing; that the host accepts the move as
  balanced rests on it. On the small database with rational amounts the checks of 100
  and 50 give a counterpart of 150; with the amounts of the coarse arithmetic the checks
  of 95 and 7 give a counterpart of 100, the total as it is accumulated.
\<close>

theorem C1_validate_deposit_move:
  fixes e :: "'a::{zero,one,plus,times,uminus,linorder} env"
  assumes laws: "zero_neutral TYPE('a)"
    and ok: "db_ok e"
    and dep: "get_deposit e i = Some d"
    and pos: "\<forall>l \<in> set (check_payment_ids e i). aml_debit l > 0"
    and acc: "counterpart_account e d = Some a"
  shows "\<exists>e'. validate_deposit e [i] = Inr e'
     \<and> env_moves e' = env_moves e @
          [\<lparr>am_id = next_move_id e, am_journal_id = dep_journal_id d,
            am_date = dep_deposit_date d, am_ref = ''Check Deposit '' @ dep_name d,
            am_company_id = dep_company_id d, am_state = Posted\<rparr>]
     \<and> length (move_lines e' (next_move_id e)) = length (check_payment_ids e i) + 1
     \<and> (\<forall>k < length (check_payment_ids e i).
           aml_credit (move_lines e' (next_move_id e) ! k) = aml_debit (check_payment_ids e i ! k)
           \<and> aml_debit (move_lines e' (next_move_id e) ! k) = 0
           \<and> aml_amount_currency (move_lines e' (next_move_id e) ! k) =
               aml_amount_currency (check_payment_ids e i ! k) * (- 1)
           \<and> aml_account_id (move_lines e' (next_move_id e) ! k) =
               aml_account_id (check_payment_ids e i ! k)
           \<and> aml_partner_id (move_lines e' (next_move_id e) ! k) =
               aml_partner_id (check_payment_ids e i ! k)
           \<and> aml_currency_id (move_lines e' (next_move_id e) ! k) =
               aml_currency_id (check_payment_ids e i ! k))
     \<and> aml_debit (last (move_lines e' (next_move_id e))) =
         fsum (map aml_debit (check_payment_ids e i))
     \<and> aml_credit (last (move_lines e' (next_move_id e))) = 0
     \<and> aml_account_id (last (move_lines e' (next_move_id e))) = Some a
     \<and> fsum (map aml_debit (move_lines e' (next_move_id e))) =
         fsum (map aml_credit (move_lines e' (next_move_id e)))"
proof -
  note fresh = db_ok_fresh [OF ok]
  let ?e' = "validated e i d a"
  let ?ml = "move_lines ?e' (next_move_id e)"
  let ?cs = "check_payment_ids e i"
  have run: "validate_deposit e [i] = Inr ?e'"
    by (simp only: validate_deposit_single validate_one_ok [OF dep pos acc fresh laws])
  have moves: "env_moves ?e' = env_moves e @
          [\<lparr>am_id = next_move_id e, am_journal_id = dep_journal_id d,
            am_date = dep_deposit_date d, am_ref = ''Check Deposit '' @ dep_name d,
            am_company_id = dep_company_id d, am_state = Posted\<rparr>]"
    by (rule env_moves_validated [OF db_ok_fresh_move [OF ok]])
  have len: "length ?ml = length ?cs + 1"
    by (simp add: move_lines_validated [OF fresh])
  have offs: "\<forall>k < length ?cs.
           aml_credit (?ml ! k) = aml_debit (?cs ! k)
           \<and> aml_debit (?ml ! k) = 0
           \<and> aml_amount_currency (?ml ! k) = aml_amount_currency (?cs ! k) * (- 1)
           \<and> aml_account_id (?ml ! k) = aml_account_id (?cs ! k)
           \<and> aml_partner_id (?ml ! k) = aml_partner_id (?cs ! k)
           \<and> aml_currency_id (?ml ! k) = aml_currency_id (?cs ! k)"
  proof (intro allI impI)
    fix k
    assume k: "k < length ?cs"
    let ?o = "offset_line (next_move_id e) (next_line_id e + k) (?cs ! k)"
    have eq: "(?ml ! k)\<lparr>aml_reconciled := False\<rparr> = ?o"
      by (rule nth_move_lines_validated [OF fresh k])
    have "aml_credit ((?ml ! k)\<lparr>aml_reconciled := False\<rparr>) = aml_debit (?cs ! k)"
      "aml_debit ((?ml ! k)\<lparr>aml_reconciled := False\<rparr>) = 0"
      "aml_amount_currency ((?ml ! k)\<lparr>aml_reconciled := False\<rparr>) =
         aml_amount_currency (?cs ! k) * (- 1)"
      "aml_account_id ((?ml ! k)\<lparr>aml_reconciled := False\<rparr>) = aml_account_id (?cs ! k)"
      "aml_partner_id ((?ml ! k)\<lparr>aml_reconciled := False\<rparr>) = aml_partner_id (?cs ! k)"
      "aml_currency_id ((?ml ! k)\<lparr>aml_reconciled := False\<rparr>) = aml_currency_id (?cs ! k)"
      unfolding eq by (simp_all add: offset_line_def)
    then show "aml_credit (?ml ! k) = aml_debit (?cs ! k)
           \<and> aml_debit (?ml ! k) = 0
           \<and> aml_amount_currency (?ml ! k) = aml_amount_currency (?cs ! k) * (- 1)
           \<and> aml_account_id (?ml ! k) = aml_account_id (?cs ! k)
           \<and> aml_partner_id (?ml ! k) = aml_partner_id (?cs ! k)
           \<and> aml_currency_id (?ml ! k) = aml_currency_id (?cs ! k)"
      by simp
  qed
  have bal: "fsum (map aml_debit ?ml) = fsum (map aml_credit ?ml)"
    using validated_balanced [OF fresh laws, of i d a] by (simp only: balanced_def)
  have "validate_deposit e [i] = Inr ?e'
     \<and> env_moves ?e' = env_moves e @
          [\<lparr>am_id = next_move_id e, am_journal_id = dep_journal_id d,
            am_date = dep_deposit_date d, am_ref = ''Check Deposit '' @ dep_name d,
            am_company_id = dep_company_id d, am_state = Posted\<rparr>]
     \<and> length ?ml = length ?cs + 1
     \<and> (\<forall>k < length ?cs.
           aml_credit (?ml ! k) = aml_debit (?cs ! k)
           \<and> aml_debit (?ml ! k) = 0
           \<and> aml_amount_currency (?ml ! k) = aml_amount_currency (?cs ! k) * (- 1)
           \<and> aml_account_id (?ml ! k) = aml_account_id (?cs ! k)
           \<and> aml_partner_id (?ml ! k) = aml_partner_id (?cs ! k)
           \<and> aml_currency_id (?ml ! k) = aml_currency_id (?cs ! k))
     \<and> aml_debit (last ?ml) = fsum (map aml_debit ?cs)
     \<and> aml_credit (last ?ml) = 0
     \<and> aml_account_id (last ?ml) = Some a
     \<and> fsum (map aml_debit ?ml) = fsum (map aml_credit ?ml)"
    using run moves len offs last_move_lines_validated(2,3,1) [OF fresh, of i d a] bal
    by (intro conjI)
  then show ?thesis by (rule exI [of _ ?e'])
qed

theorem C1_counterexample:
  "get_deposit demo_env_zero 1 = Some demo_deposit
   \<and> length (check_payment_ids demo_env_zero 1) = 1
   \<and> validate_deposit demo_env_zero [1] = Inl (AssertionError ''Debit must have a value'')
   \<and> env_moves (commit demo_env_zero (validate_deposit demo_env_zero [1])) = env_moves demo_env_zero
   \<and> get_deposit (no_account demo_env) 1 = Some demo_deposit
   \<and> length (check_payment_ids (no_account demo_env) 1) = 2
   \<and> validate_deposit (no_account demo_env) [1] =
       Inl (UserError (MissingOutstandingReceiptsAccount ''YourCompany''))
   \<and> env_moves (commit (no_account demo_env) (validate_deposit (no_account demo_env) [1])) =
       env_moves (no_account demo_env)"
proof -
  have dep: "get_deposit demo_env_zero 1 = Some demo_deposit"
    by (simp add: get_deposit_def demo_env_zero_def demo_env_def demo_deposit_def)
  have cs: "check_payment_ids demo_env_zero 1 = [demo_check 1 0 ''CHK1'']"
    by (simp add: check_payment_ids_def demo_env_zero_def demo_check_def)
  have neg: "\<exists>l \<in> set (check_payment_ids demo_env_zero 1). \<not> aml_debit l > 0"
    unfolding cs by (simp add: demo_check_def)
  have r1: "validate_deposit demo_env_zero [1] = Inl (AssertionError ''Debit must have a value'')"
    by (simp only: validate_deposit_single validate_one_assert [OF dep neg])
  have c1: "env_moves (commit demo_env_zero (validate_deposit demo_env_zero [1])) = env_moves demo_env_zero"
    unfolding r1 by (simp add: commit_def)
  have dep2: "get_deposit (no_account demo_env) 1 = Some demo_deposit"
    using demo_get_deposit by (simp add: get_deposit_def no_account_def no_manual_def)
  have cs2: "check_payment_ids (no_account demo_env) 1 = check_payment_ids demo_env 1"
    by (simp add: check_payment_ids_def no_account_def no_manual_def)
  have pos2: "\<forall>l \<in> set (check_payment_ids (no_account demo_env) 1). aml_debit l > 0"
    unfolding cs2 by (rule demo_positive)
  have acc2: "counterpart_account (no_account demo_env) demo_deposit = None"
    by (simp add: counterpart_account_def no_account_def no_manual_def)
  have name: "comp_display_name (companies (no_account demo_env) (dep_company_id demo_deposit)) =
      ''YourCompany''"
    by (simp add: no_account_def)
  have r2: "validate_deposit (no_account demo_env) [1] =
       Inl (UserError (MissingOutstandingReceiptsAccount ''YourCompany''))"
    unfolding validate_deposit_single validate_one_eq [OF dep2 pos2] acc2
    by (simp add: name)
  have c2: "env_moves (commit (no_account demo_env) (validate_deposit (no_account demo_env) [1])) =
       env_moves (no_account demo_env)"
    unfolding r2 by (simp add: commit_def)
  have n1: "length (check_payment_ids demo_env_zero 1) = 1"
    unfolding cs by simp
  have n2: "length (check_payment_ids (no_account demo_env) 1) = 2"
    unfolding cs2 demo_check_payment_ids by simp
  from dep n1 r1 c1 dep2 n2 r2 c2 show ?thesis by (intro conjI)
qed

theorem C1_validate_deposit_move_witness:
  "(\<exists>e'. validate_deposit demo_env [1] = Inr e'
     \<and> map am_state (env_moves e') = [Posted, Posted]
     \<and> length (move_lines e' 2) = 3
     \<and> map aml_credit (move_lines e' 2) = [100, 50, 0]
     \<and> map aml_debit (move_lines e' 2) = [0, 0, 150])
   \<and> (\<exists>e'. validate_deposit coarse_env [1] = Inr e'
     \<and> length (move_lines e' 2) = 3
     \<and> map aml_credit (move_lines e' 2) = [Coarse 95, Coarse 7, Coarse 0]
     \<and> map aml_debit (move_lines e' 2) = [Coarse 0, Coarse 0, Coarse 100])"
proof -
  have ok: "db_ok demo_env"
    by (simp add: db_ok_def demo_env_def demo_check_def demo_deposit_def)
  have laws: "zero_neutral TYPE(rat)"
    by (simp add: zero_neutral_def)
  have dep: "get_deposit demo_env 1 = Some demo_deposit"
    by (simp add: get_deposit_def demo_env_def demo_deposit_def)
  have cs: "check_payment_ids demo_env 1 = [demo_check 1 100 ''CHK1'', demo_check 2 50 ''CHK2'']"
    by (simp add: check_payment_ids_def demo_env_def demo_check_def)
  have pos: "\<forall>l \<in> set (check_payment_ids demo_env 1). aml_debit l > 0"
    unfolding cs by (simp add: demo_check_def)
  have acc: "counterpart_account demo_env demo_deposit = Some 30"
    by (simp add: counterpart_account_def demo_env_def demo_deposit_def demo_journals_def)
  have nm: "next_move_id demo_env = 2" "map am_state (env_moves demo_env) = [Posted]"
    by (simp_all add: demo_env_def)
  from C1_validate_deposit_move [OF laws ok dep pos acc]
  obtain e' where run: "validate_deposit demo_env [1] = Inr e'"
    and mv: "env_moves e' = env_moves demo_env @
          [\<lparr>am_id = next_move_id demo_env, am_journal_id = dep_journal_id demo_deposit,
            am_date = dep_deposit_date demo_deposit, am_ref = ''Check Deposit '' @ dep_name demo_deposit,
            am_company_id = dep_company_id demo_deposit, am_state = Posted\<rparr>]"
    and len: "length (move_lines e' 2) = 3"
    and offs: "\<forall>k < 2. aml_credit (move_lines e' 2 ! k) = aml_debit (check_payment_ids demo_env 1 ! k)
           \<and> aml_debit (move_lines e' 2 ! k) = 0"
    and lst: "aml_debit (last (move_lines e' 2)) = 150" "aml_credit (last (move_lines e' 2)) = 0"
    unfolding nm cs by (auto simp: demo_check_def fsum_def)
  obtain x y z where xyz: "move_lines e' 2 = [x, y, z]"
    using len by (auto simp: length_Suc_conv numeral_3_eq_3)
  from offs have "aml_credit (move_lines e' 2 ! 0) = 100 \<and> aml_debit (move_lines e' 2 ! 0) = 0"
    "aml_credit (move_lines e' 2 ! 1) = 50 \<and> aml_debit (move_lines e' 2 ! 1) = 0"
    unfolding cs by (simp_all add: demo_check_def)
  with lst have amounts: "map aml_credit (move_lines e' 2) = [100, 50, 0]"
    "map aml_debit (move_lines e' 2) = [0, 0, 150]"
    by (simp_all add: xyz)
  have states: "map am_state (env_moves e') = [Posted, Posted]"
    by (simp add: mv nm)
  have "validate_deposit demo_env [1] = Inr e'
     \<and> map am_state (env_moves e') = [Posted, Posted]
     \<and> length (move_lines e' 2) = 3
     \<and> map aml_credit (move_lines e' 2) = [100, 50, 0]
     \<and> map aml_debit (move_lines e' 2) = [0, 0, 150]"
    by (simp only: run states len amounts)
  then have exact: "\<exists>e'. validate_deposit demo_env [1] = Inr e'
     \<and> map am_state (env_moves e') = [Posted, Posted]
     \<and> length (move_lines e' 2) = 3
     \<and> map aml_credit (move_lines e' 2) = [100, 50, 0]
     \<and> map aml_debit (move_lines e' 2) = [0, 0, 150]"
    by (rule exI [of _ e'])
  have cok: "db_ok coarse_env"
    by (simp add: db_ok_def coarse_env_def coarse_check_def coarse_deposit_def demo_env_def)
  have cdep: "get_deposit coarse_env 1 = Some coarse_deposit"
    by (simp add: get_deposit_def coarse_env_def coarse_deposit_def)
  have ccs: "check_payment_ids coarse_env 1 = [coarse_check 1 95 ''CHK1'', coarse_check 2 7 ''CHK2'']"
    by (simp add: check_payment_ids_def coarse_env_def coarse_check_def)
  have cpos: "\<forall>l \<in> set (check_payment_ids coarse_env 1). aml_debit l > 0"
    unfolding ccs by (simp add: coarse_check_def less_coarse_def zero_coarse_def)
  have cacc: "counterpart_account coarse_env coarse_deposit = Some 30"
    by (simp add: counterpart_account_def coarse_env_def coarse_deposit_def demo_journals_def)
  have cnm: "next_move_id coarse_env = 2"
    by (simp add: coarse_env_def)
  have ctot: "fsum (map aml_debit [coarse_check 1 95 ''CHK1'', coarse_check 2 7 ''CHK2'']) = Coarse 100"
    by (simp add: fsum_def coarse_check_def plus_coarse_def zero_coarse_def round_amount_def)
  from C1_validate_deposit_move [OF coarse_zero_neutral cok cdep cpos cacc]
  obtain c' where crun: "validate_deposit coarse_env [1] = Inr c'"
    and clen: "length (move_lines c' 2) = 3"
    and coffs: "\<forall>k < 2. aml_credit (move_lines c' 2 ! k) =
             aml_debit ([coarse_check 1 95 ''CHK1'', coarse_check 2 7 ''CHK2''] ! k)
           \<and> aml_debit (move_lines c' 2 ! k) = 0"
    and clst: "aml_debit (last (move_lines c' 2)) = Coarse 100" "aml_credit (last (move_lines c' 2)) = 0"
    unfolding cnm ccs ctot by auto
  obtain u v w where uvw: "move_lines c' 2 = [u, v, w]"
    using clen by (auto simp: length_Suc_conv numeral_3_eq_3)
  from coffs have "aml_credit (move_lines c' 2 ! 0) = Coarse 95 \<and> aml_debit (move_lines c' 2 ! 0) = 0"
    "aml_credit (move_lines c' 2 ! 1) = Coarse 7 \<and> aml_debit (move_lines c' 2 ! 1) = 0"
    by (simp_all add: coarse_check_def)
  with clst have camounts: "map aml_credit (move_lines c' 2) = [Coarse 95, Coarse 7, Coarse 0]"
    "map aml_debit (move_lines c' 2) = [Coarse 0, Coarse 0, Coarse 100]"
    by (simp_all add: uvw zero_coarse_def)
  have "validate_deposit coarse_env [1] = Inr c'
     \<and> length (move_lines c' 2) = 3
     \<and> map aml_credit (move_lines c' 2) = [Coarse 95, Coarse 7, Coarse 0]
     \<and> map aml_debit (move_lines c' 2) = [Coarse 0, Coarse 0, Coarse 100]"
    by (simp only: crun clen camounts)
  then have coarse: "\<exists>e'. validate_deposit coarse_env [1] = Inr e'
     \<and> length (move_lines e' 2) = 3
     \<and> map aml_credit (move_lines e' 2) = [Coarse 95, Coarse 7, Coarse 0]
     \<and> map aml_debit (move_lines e' 2) = [Coarse 0, Coarse 0, Coarse 100]"
    by (rule exI [of _ c'])
  from exact coarse show ?thesis by (intro conjI)
qed

subsection \<open>C2: the derived totals\<close>




subsection \<open>C3: the currency of the attached check lines\<close>

text \<open>
  C3. The constraint method runs over existing deposits. When some attached check line
  of one of them is in a currency other than the deposit's, it raises the validation
  error whose message carries the debit, the reference, the currency name of such a
  line and the currency name of its deposit. When every attached line of every deposit
  is in the deposit's currency, it raises nothing.
\<close>

theorem C3_currency_constraint:
  assumes "\<forall>i \<in> set ids. get_deposit e i \<noteq> None"
  shows "((\<exists>i \<in> set ids. \<exists>d. get_deposit e i = Some d
            \<and> (\<exists>l \<in> set (check_payment_ids e i). aml_currency_id l \<noteq> Some (dep_currency_id d))) \<longrightarrow>
          (\<exists>i \<in> set ids. \<exists>d. get_deposit e i = Some d
            \<and> (\<exists>l \<in> set (check_payment_ids e i). aml_currency_id l \<noteq> Some (dep_currency_id d)
                  \<and> check_deposit e ids =
                      Inl (ValidationError
                             (CurrencyMismatch (aml_debit l) (ref_or_empty (aml_ref l))
                                (map_option (\<lambda>c. cur_name (currencies e c)) (aml_currency_id l))
                                (cur_name (currencies e (dep_currency_id d))))))))
     \<and> ((\<forall>i \<in> set ids. \<forall>d. get_deposit e i = Some d \<longrightarrow>
            (\<forall>l \<in> set (check_payment_ids e i). aml_currency_id l = Some (dep_currency_id d))) \<longrightarrow>
          check_deposit e ids = Inr ())"
proof (intro conjI impI)
  assume "\<exists>i \<in> set ids. \<exists>d. get_deposit e i = Some d
            \<and> (\<exists>l \<in> set (check_payment_ids e i). aml_currency_id l \<noteq> Some (dep_currency_id d))"
  with assms show "\<exists>i \<in> set ids. \<exists>d. get_deposit e i = Some d
            \<and> (\<exists>l \<in> set (check_payment_ids e i). aml_currency_id l \<noteq> Some (dep_currency_id d)
                  \<and> check_deposit e ids =
                      Inl (ValidationError
                             (CurrencyMismatch (aml_debit l) (ref_or_empty (aml_ref l))
                                (map_option (\<lambda>c. cur_name (currencies e c)) (aml_currency_id l))
                                (cur_name (currencies e (dep_currency_id d))))))"
    by (rule check_deposit_err)
next
  assume "\<forall>i \<in> set ids. \<forall>d. get_deposit e i = Some d \<longrightarrow>
            (\<forall>l \<in> set (check_payment_ids e i). aml_currency_id l = Some (dep_currency_id d))"
  with assms have "\<forall>i \<in> set ids. \<exists>d. get_deposit e i = Some d
      \<and> (\<forall>l \<in> set (check_payment_ids e i). aml_currency_id l = Some (dep_currency_id d))"
    by auto
  then show "check_deposit e ids = Inr ()" by (rule check_deposit_ok)
qed


theorem C3_currency_constraint_witness:
  "check_deposit demo_env_usd [1] =
     Inl (ValidationError (CurrencyMismatch 50 ''CHK2'' (Some ''USD'') ''EUR''))
   \<and> check_deposit demo_env [1] = Inr ()"
proof -
  have dep: "get_deposit demo_env_usd 1 = Some demo_deposit"
    using demo_get_deposit by (simp add: get_deposit_def demo_env_usd_def)
  have cs: "check_payment_ids demo_env_usd 1 =
      [demo_check 1 100 ''CHK1'', (demo_check 2 50 ''CHK2'')\<lparr>aml_currency_id := Some 2\<rparr>]"
    by (simp add: check_payment_ids_def demo_env_usd_def demo_check_def)
  have ex1: "\<forall>i \<in> set [1]. get_deposit demo_env_usd i \<noteq> None"
    and ex2: "\<forall>i \<in> set [1]. get_deposit demo_env i \<noteq> None"
    by (simp_all add: dep demo_get_deposit del: One_nat_def)
  have bad: "\<exists>i \<in> set [1]. \<exists>d. get_deposit demo_env_usd i = Some d
            \<and> (\<exists>l \<in> set (check_payment_ids demo_env_usd i). aml_currency_id l \<noteq> Some (dep_currency_id d))"
    by (simp add: dep cs demo_deposit_def del: One_nat_def)
  have good: "\<forall>i \<in> set [1]. \<forall>d. get_deposit demo_env i = Some d \<longrightarrow>
            (\<forall>l \<in> set (check_payment_ids demo_env i). aml_currency_id l = Some (dep_currency_id d))"
    by (simp add: demo_get_deposit demo_check_payment_ids del: One_nat_def)
      (simp add: demo_check_def demo_deposit_def)
  from C3_currency_constraint [OF ex1] bad
  have "\<exists>i \<in> set [1]. \<exists>d. get_deposit demo_env_usd i = Some d
            \<and> (\<exists>l \<in> set (check_payment_ids demo_env_usd i). aml_currency_id l \<noteq> Some (dep_currency_id d)
                  \<and> check_deposit demo_env_usd [1] =
                      Inl (ValidationError
                             (CurrencyMismatch (aml_debit l) (ref_or_empty (aml_ref l))
                                (map_option (\<lambda>c. cur_name (currencies demo_env_usd c)) (aml_currency_id l))
                                (cur_name (currencies demo_env_usd (dep_currency_id d))))))"
    by blast
  then have a: "check_deposit demo_env_usd [1] =
     Inl (ValidationError (CurrencyMismatch 50 ''CHK2'' (Some ''USD'') ''EUR''))"
    by (simp add: dep cs del: One_nat_def)
      (auto simp: demo_check_def demo_deposit_def demo_env_usd_def ref_or_empty_def)
  from C3_currency_constraint [OF ex2] good
  have b: "check_deposit demo_env [1] = Inr ()" by blast
  from a b show ?thesis by (intro conjI)
qed

subsection \<open>C4: the invariant of the done state\<close>

text \<open>
  C4, as amended. The claim as stated fails, because \<open>create\<close> passes on whatever
  values it is given: \<^verbatim>\<open>state\<close> and \<^verbatim>\<open>move_id\<close> are read-only in the forms of the client
  only. The counterexample that follows the theorem has two runs on the small database
  (a deposit is shown by its id, its state and its move). In the first, \<open>create\<close> is
  given the state done, and the new deposit 2 is done without a move. In the second,
  deposit 1 is validated, \<open>create\<close> is given the move of deposit 1 for a new draft
  deposit 2, and \<open>backtodraft\<close> on deposit 2 deletes that move: deposit 1 is left
  done without a move.

  In every database that \<open>validate_deposit\<close>, \<open>backtodraft\<close>, \<open>unlink\<close>, and
  \<open>create\<close> with values that make the new deposit a draft without a move, reach from
  a consistent database without validated deposits, a deposit in state done has a move
  that exists and is posted, and all its attached check lines are reconciled. A run of
  \<open>validate_deposit\<close> that returns leaves every deposit of its batch in state done. A
  deposit that is done stays done, and stays in the database, through every run of
  \<open>create\<close>, \<open>validate_deposit\<close> and \<open>unlink\<close> that returns: only \<open>backtodraft\<close>
  leaves the done state.
\<close>

theorem C4_done_invariant:
  "(reachable draft_vals e \<longrightarrow>
      (\<forall>d \<in> set (env_deposits e). dep_state d = DepDone \<longrightarrow>
         (\<exists>mv \<in> set (env_moves e). dep_move_id d = Some (am_id mv) \<and> am_state mv = Posted)
         \<and> (\<forall>l \<in> set (check_payment_ids e (dep_id d)). aml_reconciled l)))
   \<and> (validate_deposit e ids = Inr e' \<longrightarrow>
      (\<forall>d \<in> set (env_deposits e'). dep_id d \<in> set ids \<longrightarrow> dep_state d = DepDone))
   \<and> (get_deposit e i = Some d \<and> dep_state d = DepDone
        \<and> (create e vals = Inr e' \<or> validate_deposit e ids = Inr e' \<or> unlink e ids = Inr e') \<longrightarrow>
      map_option dep_state (get_deposit e' i) = Some DepDone)"
proof (intro conjI impI)
  assume "reachable draft_vals e"
  then have "workflow_inv e" by (rule reachable_inv)
  then have "done_ok e" by (simp add: workflow_inv_def)
  then show "\<forall>d \<in> set (env_deposits e). dep_state d = DepDone \<longrightarrow>
         (\<exists>mv \<in> set (env_moves e). dep_move_id d = Some (am_id mv) \<and> am_state mv = Posted)
         \<and> (\<forall>l \<in> set (check_payment_ids e (dep_id d)). aml_reconciled l)"
    by (simp only: done_ok_def)
next
  assume "validate_deposit e ids = Inr e'"
  then show "\<forall>d \<in> set (env_deposits e'). dep_id d \<in> set ids \<longrightarrow> dep_state d = DepDone"
    by (rule validate_deposit_done)
next
  assume h: "get_deposit e i = Some d \<and> dep_state d = DepDone
        \<and> (create e vals = Inr e' \<or> validate_deposit e ids = Inr e' \<or> unlink e ids = Inr e')"
  then have dep: "get_deposit e i = Some d" and st: "dep_state d = DepDone" by simp_all
  from h consider "create e vals = Inr e'" | "validate_deposit e ids = Inr e'" | "unlink e ids = Inr e'"
    by blast
  then show "map_option dep_state (get_deposit e' i) = Some DepDone"
  proof cases
    case 1
    then show ?thesis using dep st by (rule create_keeps_done)
  next
    case 2
    then show ?thesis using dep st by (rule validate_deposit_keeps_done)
  next
    case 3
    from unlink_keeps_done [OF 3 dep st] st show ?thesis by simp
  qed
qed

theorem C4_counterexample:
  "reachable any_vals demo_env
   \<and> create demo_env demo_vals_done = Inr demo_env_created_done
   \<and> reachable any_vals demo_env_created_done
   \<and> map dep_key (env_deposits demo_env_created_done) = [(1, DepDraft, None), (2, DepDone, None)]
   \<and> validate_deposit demo_env [1] = Inr demo_env_validated
   \<and> create demo_env_validated demo_vals_move = Inr demo_env_shared
   \<and> backtodraft demo_env_shared [2] = Inr demo_env_orphaned
   \<and> reachable any_vals demo_env_orphaned
   \<and> map dep_key (env_deposits demo_env_orphaned) = [(1, DepDone, None), (2, DepDraft, None)]
   \<and> map am_id (env_moves demo_env_orphaned) = [1]"
proof -
  have r0: "reachable any_vals demo_env"
    by (rule reachable.initial [OF demo_db_ok demo_initial])
  have c1: "create demo_env demo_vals_done = Inr demo_env_created_done"
    unfolding demo_env_created_done_def demo_create_done by (simp add: commit_def)
  have r1: "reachable any_vals demo_env_created_done"
    by (rule reachable.by_create [OF r0 _ c1]) (simp add: any_vals_def)
  have k1: "map dep_key (env_deposits demo_env_created_done) =
      [(1, DepDraft, None), (2, DepDone, None)]"
    unfolding demo_env_created_done_def demo_create_done
    by (simp add: commit_def dep_keys_compute)
      (simp add: insert_deposit_def dep_key_def demo_env_def demo_deposit_def demo_vals_done_def
        demo_vals_def)
  have r2: "reachable any_vals demo_env_validated"
    by (rule reachable.by_validate_deposit [OF r0 demo_validate])
  have c2: "create demo_env_validated demo_vals_move = Inr demo_env_shared"
    unfolding demo_env_shared_def demo_create_move by (simp add: commit_def)
  have r3: "reachable any_vals demo_env_shared"
    by (rule reachable.by_create [OF r2 _ c2]) (simp add: any_vals_def)
  have c3: "backtodraft demo_env_shared [2] = Inr demo_env_orphaned"
    unfolding demo_env_orphaned_def demo_shared_run by (simp add: commit_def)
  have r4: "reachable any_vals demo_env_orphaned"
    by (rule reachable.by_backtodraft [OF r3 c3])
  from r0 c1 r1 k1 demo_validate c2 c3 r4 demo_orphaned show ?thesis
    by (intro conjI)
qed

theorem C4_done_invariant_witness:
  "reachable draft_vals demo_env_validated
   \<and> list_all (\<lambda>d. dep_state d = DepDone) (env_deposits demo_env_validated)
   \<and> list_ex (\<lambda>mv. am_id mv = 2 \<and> am_state mv = Posted) (env_moves demo_env_validated)
   \<and> list_all aml_reconciled (check_payment_ids demo_env_validated 1)
   \<and> map_option dep_state (get_deposit (super_unlink demo_env_done [2]) 1) = Some DepDone"
proof -
  let ?d = "demo_deposit\<lparr>dep_state := DepDone, dep_move_id := Some 2\<rparr>"
  have r0: "reachable draft_vals demo_env"
    by (rule reachable.initial [OF demo_db_ok demo_initial])
  have r: "reachable draft_vals demo_env_validated"
    by (rule reachable.by_validate_deposit [OF r0 demo_validate])
  have mem: "?d \<in> set (env_deposits demo_env_validated)" and st: "dep_state ?d = DepDone"
    and ids: "dep_id ?d = 1" "dep_move_id ?d = Some 2"
    by (simp_all add: demo_validated_deposits demo_deposit_def)
  from C4_done_invariant [of demo_env_validated "[1]" demo_env_validated 1 ?d demo_vals] r mem st
  have "\<exists>mv \<in> set (env_moves demo_env_validated). dep_move_id ?d = Some (am_id mv) \<and> am_state mv = Posted"
    and "\<forall>l \<in> set (check_payment_ids demo_env_validated (dep_id ?d)). aml_reconciled l"
    by blast+
  then have w2: "list_ex (\<lambda>mv. am_id mv = 2 \<and> am_state mv = Posted) (env_moves demo_env_validated)"
    and w3: "list_all aml_reconciled (check_payment_ids demo_env_validated 1)"
    unfolding ids list_ex_iff list_all_iff by auto
  from C4_done_invariant [of demo_env "[1]" demo_env_validated 1 demo_deposit demo_vals] demo_validate
  have "\<forall>d \<in> set (env_deposits demo_env_validated). dep_id d \<in> set [1] \<longrightarrow> dep_state d = DepDone"
    by blast
  then have w1: "list_all (\<lambda>d. dep_state d = DepDone) (env_deposits demo_env_validated)"
    unfolding list_all_iff demo_validated_deposits by (simp add: demo_deposit_def)
  from C4_done_invariant [of demo_env_done "[2]" "super_unlink demo_env_done [2]" 1 demo_done_deposit demo_vals]
    demo_done_unlink demo_done_get_deposit(1) demo_done_states(1)
  have w4: "map_option dep_state (get_deposit (super_unlink demo_env_done [2]) 1) = Some DepDone"
    by blast
  from r w1 w2 w3 w4 show ?thesis by (intro conjI)
qed

subsection \<open>C5: back to draft\<close>



subsection \<open>C6: deleting a deposit\<close>

text \<open>
  C6. \<open>unlink\<close> on a deposit in state done raises the user error that names the
  deposit; on a draft deposit it is the default deletion, after which the deposit is
  gone. Whatever batch \<open>unlink\<close> is called on, a run that returns leaves every done
  deposit in place.
\<close>

theorem C6_unlink:
  "(get_deposit e i = Some d \<and> dep_state d = DepDone \<longrightarrow>
      unlink e [i] = Inl (UserError (DepositInValidState (dep_name d)))
      \<and> user_facing (UserError (DepositInValidState (dep_name d))))
   \<and> (get_deposit e i = Some d \<and> dep_state d = DepDraft \<longrightarrow>
      unlink e [i] = Inr (super_unlink e [i]) \<and> get_deposit (super_unlink e [i]) i = None)
   \<and> (get_deposit e i = Some d \<and> dep_state d = DepDone \<and> unlink e ids = Inr e' \<longrightarrow>
      get_deposit e' i = Some d)"
proof (intro conjI impI)
  assume "get_deposit e i = Some d \<and> dep_state d = DepDone"
  then show "unlink e [i] = Inl (UserError (DepositInValidState (dep_name d)))"
    by (simp add: unlink_def)
next
  show "user_facing (UserError (DepositInValidState (dep_name d)))" by simp
next
  assume "get_deposit e i = Some d \<and> dep_state d = DepDraft"
  then show "unlink e [i] = Inr (super_unlink e [i])"
    by (simp add: unlink_def)
next
  show "get_deposit (super_unlink e [i]) i = None"
    by (simp add: get_deposit_def super_unlink_def find_filter_drop)
next
  assume h: "get_deposit e i = Some d \<and> dep_state d = DepDone \<and> unlink e ids = Inr e'"
  from h have hd: "get_deposit e i = Some d" and hs: "dep_state d = DepDone"
    and hu: "unlink e ids = Inr e'" by simp_all
  have notin: "i \<notin> set ids"
  proof
    assume "i \<in> set ids"
    from unlink_done_in_batch [OF this hd hs] hu show False by simp
  qed
  from h have "e' = super_unlink e ids"
    by (auto simp: unlink_def split: sum.splits list.splits)
  then have "get_deposit e' i = find (\<lambda>x. dep_id x = i) (filter (\<lambda>x. dep_id x \<notin> set ids) (env_deposits e))"
    by (simp add: get_deposit_def super_unlink_def)
  also have "\<dots> = find (\<lambda>x. dep_id x = i) (env_deposits e)"
    using notin by (intro find_filter_keep) simp
  finally show "get_deposit e' i = Some d"
    using h by (simp add: get_deposit_def)
qed

theorem C6_unlink_witness:
  "unlink demo_env_done [1] = Inl (UserError (DepositInValidState ''DEP1''))
   \<and> unlink demo_env_done [2] = Inr (super_unlink demo_env_done [2])
   \<and> get_deposit (super_unlink demo_env_done [2]) 2 = None
   \<and> get_deposit (super_unlink demo_env_done [2]) 1 = Some demo_done_deposit"
proof -
  from C6_unlink [of demo_env_done 1 demo_done_deposit "[2]" "super_unlink demo_env_done [2]"]
  have a: "unlink demo_env_done [1] = Inl (UserError (DepositInValidState ''DEP1''))"
    by (simp add: demo_done_get_deposit demo_done_states del: One_nat_def)
  from C6_unlink [of demo_env_done 2 demo_draft_deposit "[]" demo_env_done]
  have b: "unlink demo_env_done [2] = Inr (super_unlink demo_env_done [2])"
    and c: "get_deposit (super_unlink demo_env_done [2]) 2 = None"
    by (simp_all add: demo_done_get_deposit demo_done_states del: One_nat_def)
  from C6_unlink [of demo_env_done 1 demo_done_deposit "[2]" "super_unlink demo_env_done [2]"] b
  have d: "get_deposit (super_unlink demo_env_done [2]) 1 = Some demo_done_deposit"
    by (simp add: demo_done_get_deposit demo_done_states del: One_nat_def)
  from a b c d show ?thesis by (intro conjI)
qed

subsection \<open>C7: attaching all pending checks\<close>

text \<open>
  C7. On a consistent database, \<open>get_all_checks\<close> on the deposit \<open>i\<close> looks for the
  lines of the deposit's company that are not reconciled, lie on the deposit's in-hand
  check account, have a positive debit, are attached to no deposit, are in the
  deposit's currency and belong to a posted move (\<open>pending_check\<close>). When there are
  such lines it returns, and exactly these lines now point at the deposit, all other
  lines, the deposits and the moves being as before. When there are none it raises the
  user error that names the account and the currency, and the database is left as it
  was.
\<close>

theorem C7_get_all_checks:
  assumes ok: "db_ok e"
    and dep: "get_deposit e i = Some d"
  shows "((\<exists>l \<in> set (env_lines e). pending_check e d l) \<longrightarrow>
           (\<exists>e'. get_all_checks e [i] = Inr e'
              \<and> env_lines e' =
                  map (\<lambda>l. if pending_check e d l then l\<lparr>aml_check_deposit_id := Some i\<rparr> else l)
                    (env_lines e)
              \<and> (\<forall>l \<in> set (env_lines e). pending_check e d l \<longrightarrow>
                    l\<lparr>aml_check_deposit_id := Some i\<rparr> \<in> set (check_payment_ids e' i))
              \<and> env_deposits e' = env_deposits e \<and> env_moves e' = env_moves e))
     \<and> ((\<forall>l \<in> set (env_lines e). \<not> pending_check e d l) \<longrightarrow>
           get_all_checks e [i] =
             Inl (UserError
                    (NoReceivedChecks
                       (map_option (account_display_name e) (dep_in_hand_check_account_id d))
                       (cur_display_name (currencies e (dep_currency_id d)))))
           \<and> commit e (get_all_checks e [i]) = e)"
proof (intro conjI impI)
  assume ex: "\<exists>l \<in> set (env_lines e). pending_check e d l"
  then have ne: "filter (pending_check e d) (env_lines e) \<noteq> []"
    by (simp add: filter_empty_conv)
  let ?e' = "e\<lparr>chatter := chatter e @ [(i, ''Get All Received Checks'')],
               env_lines :=
                 map (\<lambda>l. if pending_check e d l then l\<lparr>aml_check_deposit_id := Some i\<rparr> else l)
                   (env_lines e)\<rparr>"
  have dist: "distinct (map aml_id (env_lines e))"
    using ok by (simp add: db_ok_def)
  have "get_all_checks e [i] =
      Inr (e\<lparr>chatter := chatter e @ [(i, ''Get All Received Checks'')],
             env_lines :=
               map (\<lambda>l. if aml_id l \<in> aml_id ` set (filter (pending_check e d) (env_lines e))
                         then l\<lparr>aml_check_deposit_id := Some i\<rparr> else l)
                 (env_lines e)\<rparr>)"
    using ne unfolding get_all_checks_def
    by (simp only: list.case dep option.case Let_def not_False_eq_True if_True)
  then have run: "get_all_checks e [i] = Inr ?e'"
    by (simp only: attach_by_id [OF dist])
  have att: "\<forall>l \<in> set (env_lines e). pending_check e d l \<longrightarrow>
        l\<lparr>aml_check_deposit_id := Some i\<rparr> \<in> set (check_payment_ids ?e' i)"
  proof (intro ballI impI)
    fix l
    assume l: "l \<in> set (env_lines e)" and p: "pending_check e d l"
    let ?g = "\<lambda>l. if pending_check e d l then l\<lparr>aml_check_deposit_id := Some i\<rparr> else l"
    from l have "?g l \<in> ?g ` set (env_lines e)" by (rule imageI)
    with p have "l\<lparr>aml_check_deposit_id := Some i\<rparr> \<in> set (map ?g (env_lines e))"
      by simp
    then show "l\<lparr>aml_check_deposit_id := Some i\<rparr> \<in> set (check_payment_ids ?e' i)"
      by (simp add: check_payment_ids_def)
  qed
  have "get_all_checks e [i] = Inr ?e'
      \<and> env_lines ?e' =
          map (\<lambda>l. if pending_check e d l then l\<lparr>aml_check_deposit_id := Some i\<rparr> else l)
            (env_lines e)
      \<and> (\<forall>l \<in> set (env_lines e). pending_check e d l \<longrightarrow>
            l\<lparr>aml_check_deposit_id := Some i\<rparr> \<in> set (check_payment_ids ?e' i))
      \<and> env_deposits ?e' = env_deposits e \<and> env_moves ?e' = env_moves e"
    using run att by (intro conjI) simp_all
  then show "\<exists>e'. get_all_checks e [i] = Inr e'
              \<and> env_lines e' =
                  map (\<lambda>l. if pending_check e d l then l\<lparr>aml_check_deposit_id := Some i\<rparr> else l)
                    (env_lines e)
              \<and> (\<forall>l \<in> set (env_lines e). pending_check e d l \<longrightarrow>
                    l\<lparr>aml_check_deposit_id := Some i\<rparr> \<in> set (check_payment_ids e' i))
              \<and> env_deposits e' = env_deposits e \<and> env_moves e' = env_moves e"
    by (rule exI [of _ ?e'])
next
  assume none: "\<forall>l \<in> set (env_lines e). \<not> pending_check e d l"
  then have emp: "filter (pending_check e d) (env_lines e) = []"
    by (simp add: filter_empty_conv)
  show err: "get_all_checks e [i] =
             Inl (UserError
                    (NoReceivedChecks
                       (map_option (account_display_name e) (dep_in_hand_check_account_id d))
                       (cur_display_name (currencies e (dep_currency_id d)))))"
    by (simp add: get_all_checks_def dep emp)
  show "commit e (get_all_checks e [i]) = e"
    by (simp add: err commit_def)
qed


theorem C7_get_all_checks_witness:
  "(\<exists>e'. get_all_checks demo_env_pending [1] = Inr e'
      \<and> map aml_check_deposit_id (env_lines e') = [Some 1, Some 1])
   \<and> get_all_checks demo_env [1] = Inl (UserError (NoReceivedChecks (Some ''Checks in hand'') ''EUR''))
   \<and> commit demo_env (get_all_checks demo_env [1]) = demo_env"
proof -
  have ok: "db_ok demo_env_pending"
    by (simp add: db_ok_def demo_env_pending_def demo_env_def demo_check_def demo_deposit_def)
  have dep: "get_deposit demo_env_pending 1 = Some demo_deposit"
    using demo_get_deposit by (simp add: get_deposit_def demo_env_pending_def)
  have p1: "pending_check demo_env_pending demo_deposit
        ((demo_check 1 100 ''CHK1'')\<lparr>aml_check_deposit_id := None\<rparr>)"
    and p2: "\<not> pending_check demo_env_pending demo_deposit (demo_check 2 50 ''CHK2'')"
    by (simp_all add: pending_check_def get_move_def demo_env_pending_def demo_env_def demo_check_def
        demo_deposit_def)
  have ls: "env_lines demo_env_pending =
      [(demo_check 1 100 ''CHK1'')\<lparr>aml_check_deposit_id := None\<rparr>, demo_check 2 50 ''CHK2'']"
    by (simp add: demo_env_pending_def)
  have ex: "\<exists>l \<in> set (env_lines demo_env_pending). pending_check demo_env_pending demo_deposit l"
    unfolding ls using p1 by simp
  from C7_get_all_checks [OF ok dep] ex
  obtain e' where run: "get_all_checks demo_env_pending [1] = Inr e'"
    and lines: "env_lines e' =
      map (\<lambda>l. if pending_check demo_env_pending demo_deposit l
               then l\<lparr>aml_check_deposit_id := Some 1\<rparr> else l) (env_lines demo_env_pending)"
    by blast
  have att: "map aml_check_deposit_id (env_lines e') = [Some 1, Some 1]"
    unfolding lines ls using p1 p2 by (simp add: demo_check_def)
  have none: "\<forall>l \<in> set (env_lines demo_env). \<not> pending_check demo_env demo_deposit l"
    by (simp add: pending_check_def demo_env_def demo_check_def)
  have names: "map_option (account_display_name demo_env) (dep_in_hand_check_account_id demo_deposit)
      = Some ''Checks in hand''"
    "cur_display_name (currencies demo_env (dep_currency_id demo_deposit)) = ''EUR''"
    by (simp_all add: demo_env_def demo_deposit_def)
  from C7_get_all_checks [OF demo_db_ok demo_get_deposit] none
  have err: "get_all_checks demo_env [1] =
      Inl (UserError (NoReceivedChecks (Some ''Checks in hand'') ''EUR''))"
    and same: "commit demo_env (get_all_checks demo_env [1]) = demo_env"
    unfolding names by blast+
  from run att have "get_all_checks demo_env_pending [1] = Inr e'
      \<and> map aml_check_deposit_id (env_lines e') = [Some 1, Some 1]"
    by (intro conjI)
  then have "\<exists>e'. get_all_checks demo_env_pending [1] = Inr e'
      \<and> map aml_check_deposit_id (env_lines e') = [Some 1, Some 1]"
    by (rule exI [of _ e'])
  with err same show ?thesis by (intro conjI)
qed

subsection \<open>C8: the account of the counterpart line\<close>

text \<open>
  C8, as amended. The claim as stated fails when an attached check line has a debit
  that is not positive: the loop over the check lines runs before the counterpart is
  prepared, so the assertion error comes first. In the counterexample that follows the
  theorem neither account is configured, and \<open>validate_deposit\<close> ends in the
  assertion error, not in a user error.

  On a consistent database, for a deposit whose attached check lines all have a positive
  debit: when the bank journal has a manual inbound payment method line with an account,
  \<open>validate_deposit\<close> returns and the last line of the new move, the counterpart, is on
  the account of the first such line; when it has none and the company has an
  outstanding-receipts account, the counterpart is on that account; when neither is
  configured, \<open>validate_deposit\<close> fails with the user error that names the company.
  That \<open>validate_deposit\<close> returns in the first two cases holds in every arithmetic
  of the amounts in which adding zero changes nothing (the host then accepts the move
  as balanced); the choice of the account and the failure do not depend on it.
\<close>

theorem C8_counterpart_account:
  fixes e :: "'a::{zero,one,plus,times,uminus,linorder} env"
  assumes ok: "db_ok e"
    and dep: "get_deposit e i = Some d"
    and pos: "\<forall>l \<in> set (check_payment_ids e i). aml_debit l > 0"
  shows "(\<forall>a. zero_neutral TYPE('a) \<and> manual_payment_account
                (jr_inbound_payment_method_line_ids (journals e (dep_bank_journal_id d))) = Some a \<longrightarrow>
            (\<exists>e'. validate_deposit e [i] = Inr e'
                \<and> aml_account_id (last (move_lines e' (next_move_id e))) = Some a))
     \<and> (\<forall>a. zero_neutral TYPE('a) \<and> manual_payment_account
                (jr_inbound_payment_method_line_ids (journals e (dep_bank_journal_id d))) = None
              \<and> comp_account_journal_payment_debit_account_id (companies e (dep_company_id d)) = Some a \<longrightarrow>
            (\<exists>e'. validate_deposit e [i] = Inr e'
                \<and> aml_account_id (last (move_lines e' (next_move_id e))) = Some a))
     \<and> (manual_payment_account
            (jr_inbound_payment_method_line_ids (journals e (dep_bank_journal_id d))) = None
          \<and> comp_account_journal_payment_debit_account_id (companies e (dep_company_id d)) = None \<longrightarrow>
            validate_deposit e [i] =
              Inl (UserError (MissingOutstandingReceiptsAccount
                     (comp_display_name (companies e (dep_company_id d))))))
     \<and> manual_payment_account ls =
         (case filter (\<lambda>l. pml_payment_method_code l = ''manual'' \<and> pml_payment_account_id l \<noteq> None) ls of
            [] \<Rightarrow> None
          | l # rest \<Rightarrow> pml_payment_account_id l)"
proof -
  note fresh = db_ok_fresh [OF ok]
  have run: "validate_deposit e [i] = Inr (validated e i d a)
      \<and> aml_account_id (last (move_lines (validated e i d a) (next_move_id e))) = Some a"
    if "counterpart_account e d = Some a" and "zero_neutral TYPE('a)" for a
    using that
    by (simp only: validate_deposit_single validate_one_ok [OF dep pos _ fresh]
        last_move_lines_validated(1) [OF fresh])
  have a1: "\<exists>e'. validate_deposit e [i] = Inr e'
                \<and> aml_account_id (last (move_lines e' (next_move_id e))) = Some a"
    if "zero_neutral TYPE('a) \<and> manual_payment_account
          (jr_inbound_payment_method_line_ids (journals e (dep_bank_journal_id d))) = Some a" for a
  proof -
    from that have "counterpart_account e d = Some a" and laws: "zero_neutral TYPE('a)"
      by (simp_all add: counterpart_account_def)
    from run [OF this] show ?thesis ..
  qed
  have a2: "\<exists>e'. validate_deposit e [i] = Inr e'
                \<and> aml_account_id (last (move_lines e' (next_move_id e))) = Some a"
    if "zero_neutral TYPE('a) \<and> manual_payment_account
          (jr_inbound_payment_method_line_ids (journals e (dep_bank_journal_id d))) = None
        \<and> comp_account_journal_payment_debit_account_id (companies e (dep_company_id d)) = Some a" for a
  proof -
    from that have "counterpart_account e d = Some a" and laws: "zero_neutral TYPE('a)"
      by (simp_all add: counterpart_account_def)
    from run [OF this] show ?thesis ..
  qed
  have a3: "validate_deposit e [i] =
              Inl (UserError (MissingOutstandingReceiptsAccount
                     (comp_display_name (companies e (dep_company_id d)))))"
    if "manual_payment_account
          (jr_inbound_payment_method_line_ids (journals e (dep_bank_journal_id d))) = None
        \<and> comp_account_journal_payment_debit_account_id (companies e (dep_company_id d)) = None"
  proof -
    from that have "counterpart_account e d = None"
      by (simp add: counterpart_account_def)
    then show ?thesis
      by (simp add: validate_deposit_single validate_one_eq [OF dep pos])
  qed
  from a1 a2 a3 manual_payment_account_filter [of ls] show ?thesis by blast
qed

theorem C8_counterexample:
  "get_deposit (no_account demo_env_zero) 1 = Some demo_deposit
   \<and> counterpart_account (no_account demo_env_zero) demo_deposit = None
   \<and> validate_deposit (no_account demo_env_zero) [1] = Inl (AssertionError ''Debit must have a value'')
   \<and> \<not> user_facing (AssertionError ''Debit must have a value'')"
proof -
  have dep: "get_deposit (no_account demo_env_zero) 1 = Some demo_deposit"
    by (simp add: get_deposit_def no_account_def no_manual_def demo_env_zero_def demo_env_def demo_deposit_def)
  have acc: "counterpart_account (no_account demo_env_zero) demo_deposit = None"
    by (simp add: counterpart_account_def no_account_def no_manual_def)
  have neg: "\<exists>l \<in> set (check_payment_ids (no_account demo_env_zero) 1). \<not> aml_debit l > 0"
    by (simp add: check_payment_ids_def no_account_def no_manual_def demo_env_zero_def demo_check_def)
  have "validate_deposit (no_account demo_env_zero) [1] = Inl (AssertionError ''Debit must have a value'')"
    by (simp only: validate_deposit_single validate_one_assert [OF dep neg])
  with dep acc show ?thesis by simp
qed

theorem C8_counterpart_account_witness:
  "(\<exists>e'. validate_deposit demo_env [1] = Inr e' \<and> aml_account_id (last (move_lines e' 2)) = Some 30)
   \<and> (\<exists>e'. validate_deposit (no_manual demo_env) [1] = Inr e'
          \<and> aml_account_id (last (move_lines e' 2)) = Some 20)
   \<and> validate_deposit (no_account demo_env) [1] =
       Inl (UserError (MissingOutstandingReceiptsAccount ''YourCompany''))"
proof -
  have ok: "db_ok (no_manual demo_env)" "db_ok (no_account demo_env)"
    using demo_db_ok by (simp_all add: db_ok_def no_account_def no_manual_def)
  have dep: "get_deposit (no_manual demo_env) 1 = Some demo_deposit"
    "get_deposit (no_account demo_env) 1 = Some demo_deposit"
    using demo_get_deposit by (simp_all add: get_deposit_def no_account_def no_manual_def)
  have pos: "\<forall>l \<in> set (check_payment_ids (no_manual demo_env) 1). aml_debit l > 0"
    "\<forall>l \<in> set (check_payment_ids (no_account demo_env) 1). aml_debit l > 0"
    using demo_positive by (simp_all add: check_payment_ids_def no_account_def no_manual_def)
  have n: "next_move_id demo_env = 2" "next_move_id (no_manual demo_env) = 2"
    by (simp_all add: demo_env_def no_manual_def)
  have m1: "zero_neutral TYPE(rat) \<and> manual_payment_account (jr_inbound_payment_method_line_ids
        (journals demo_env (dep_bank_journal_id demo_deposit))) = Some 30"
    by (simp add: demo_env_def demo_deposit_def demo_journals_def zero_neutral_def)
  have m2: "zero_neutral TYPE(rat) \<and> manual_payment_account (jr_inbound_payment_method_line_ids
        (journals (no_manual demo_env) (dep_bank_journal_id demo_deposit))) = None
      \<and> comp_account_journal_payment_debit_account_id
          (companies (no_manual demo_env) (dep_company_id demo_deposit)) = Some 20"
    by (simp add: demo_env_def no_manual_def zero_neutral_def)
  have m3: "manual_payment_account (jr_inbound_payment_method_line_ids
        (journals (no_account demo_env) (dep_bank_journal_id demo_deposit))) = None
      \<and> comp_account_journal_payment_debit_account_id
          (companies (no_account demo_env) (dep_company_id demo_deposit)) = None"
    by (simp add: no_account_def no_manual_def)
  have c3: "comp_display_name (companies (no_account demo_env) (dep_company_id demo_deposit)) = ''YourCompany''"
    by (simp add: no_account_def)
  from C8_counterpart_account [OF demo_db_ok demo_get_deposit demo_positive] m1
  have w1: "\<exists>e'. validate_deposit demo_env [1] = Inr e' \<and> aml_account_id (last (move_lines e' 2)) = Some 30"
    unfolding n by blast
  from C8_counterpart_account [OF ok(1) dep(1) pos(1)] m2
  have w2: "\<exists>e'. validate_deposit (no_manual demo_env) [1] = Inr e'
          \<and> aml_account_id (last (move_lines e' 2)) = Some 20"
    unfolding n by blast
  from C8_counterpart_account [OF ok(2) dep(2) pos(2)] m3
  have w3: "validate_deposit (no_account demo_env) [1] =
       Inl (UserError (MissingOutstandingReceiptsAccount ''YourCompany''))"
    unfolding c3 by blast
  from w1 w2 w3 show ?thesis by (intro conjI)
qed

subsection \<open>C9: the assertion on a check line's debit\<close>

text \<open>
  C9. When a check line whose debit is not positive reaches the preparation of its
  offsetting line, the preparation fails with the assertion error, which is not one of
  the user-facing exceptions; a deposit with such a line makes \<open>validate_deposit\<close>
  fail with that error. When every attached check line has a positive debit, no run of
  \<open>validate_deposit\<close> ends in the assertion error.
\<close>

theorem C9_debit_assertion:
  "(\<not> aml_debit line > 0 \<longrightarrow>
      prepare_move_line_vals line = Inl (AssertionError ''Debit must have a value'')
      \<and> \<not> user_facing (AssertionError ''Debit must have a value''))
   \<and> (get_deposit e i = Some d \<and> (\<exists>l \<in> set (check_payment_ids e i). aml_debit l \<le> 0) \<longrightarrow>
      validate_deposit e [i] = Inl (AssertionError ''Debit must have a value''))
   \<and> ((\<forall>j. \<forall>l \<in> set (check_payment_ids e j). aml_debit l > 0) \<longrightarrow>
      (\<forall>ids s. validate_deposit e ids \<noteq> Inl (AssertionError s)))"
proof (intro conjI impI allI)
  assume "\<not> aml_debit line > 0"
  then show "prepare_move_line_vals line = Inl (AssertionError ''Debit must have a value'')"
    by (simp add: prepare_move_line_vals_def)
next
  show "\<not> user_facing (AssertionError ''Debit must have a value'')" by simp
next
  assume h: "get_deposit e i = Some d \<and> (\<exists>l \<in> set (check_payment_ids e i). aml_debit l \<le> 0)"
  then have "\<exists>l \<in> set (check_payment_ids e i). \<not> aml_debit l > 0"
    by (auto simp: not_less)
  with h show "validate_deposit e [i] = Inl (AssertionError ''Debit must have a value'')"
    by (simp only: validate_deposit_single validate_one_assert)
next
  fix ids s
  assume "\<forall>j. \<forall>l \<in> set (check_payment_ids e j). aml_debit l > 0"
  then show "validate_deposit e ids \<noteq> Inl (AssertionError s)"
    by (rule validate_deposit_no_assertion)
qed

theorem C9_debit_assertion_witness:
  "prepare_move_line_vals (demo_check 1 0 ''CHK1'') = Inl (AssertionError ''Debit must have a value'')
   \<and> validate_deposit demo_env_zero [1] = Inl (AssertionError ''Debit must have a value'')
   \<and> validate_deposit demo_env [1] \<noteq> Inl (AssertionError ''Debit must have a value'')"
proof -
  have h1: "\<not> aml_debit (demo_check 1 0 ''CHK1'') > 0"
    by (simp add: demo_check_def)
  have h2: "get_deposit demo_env_zero 1 = Some demo_deposit
      \<and> (\<exists>l \<in> set (check_payment_ids demo_env_zero 1). aml_debit l \<le> 0)"
    by (simp add: demo_env_zero_def demo_env_def demo_check_def get_deposit_def demo_deposit_def
        check_payment_ids_def)
  have h3: "\<forall>j. \<forall>l \<in> set (check_payment_ids demo_env j). aml_debit l > 0"
    by (simp add: demo_env_def demo_check_def check_payment_ids_def)
  from C9_debit_assertion [of "demo_check 1 0 ''CHK1''" demo_env_zero 1 demo_deposit] h1 h2
  have a: "prepare_move_line_vals (demo_check 1 0 ''CHK1'') = Inl (AssertionError ''Debit must have a value'')"
    and b: "validate_deposit demo_env_zero [1] = Inl (AssertionError ''Debit must have a value'')"
    by blast+
  from C9_debit_assertion [of "demo_check 1 0 ''CHK1''" demo_env 1 demo_deposit] h3
  have c: "validate_deposit demo_env [1] \<noteq> Inl (AssertionError ''Debit must have a value'')"
    by blast
  from a b c show ?thesis by blast
qed

subsection \<open>C10: a batch with a done deposit\<close>

text \<open>
  C10. When some deposit of the batch is in state done, \<open>unlink\<close> raises, and the
  database stays as it was: no deposit of the batch is deleted. When all records of the
  batch exist, the error is the user error naming a done deposit of the batch.
\<close>

theorem C10_unlink_batch:
  assumes "\<exists>i \<in> set ids. \<exists>d. get_deposit e i = Some d \<and> dep_state d = DepDone"
  shows "(\<exists>err. unlink e ids = Inl err)
     \<and> commit e (unlink e ids) = e
     \<and> ((\<forall>i \<in> set ids. get_deposit e i \<noteq> None) \<longrightarrow>
          (\<exists>i \<in> set ids. \<exists>d. get_deposit e i = Some d \<and> dep_state d = DepDone
             \<and> unlink e ids = Inl (UserError (DepositInValidState (dep_name d)))))"
proof -
  from assms obtain i d where i: "i \<in> set ids" and dep: "get_deposit e i = Some d"
    and isdone: "dep_state d = DepDone" by blast
  from unlink_done_in_batch [OF i dep isdone] obtain err where err: "unlink e ids = Inl err" ..
  then have c: "commit e (unlink e ids) = e" by (simp add: commit_def)
  have "\<exists>i \<in> set ids. \<exists>d. get_deposit e i = Some d \<and> dep_state d = DepDone
             \<and> unlink e ids = Inl (UserError (DepositInValidState (dep_name d)))"
    if all: "\<forall>i \<in> set ids. get_deposit e i \<noteq> None"
  proof -
    let ?ds = "filter (\<lambda>x. dep_state x = DepDone) (map (\<lambda>i. the (get_deposit e i)) ids)"
    have fd: "filtered_done e ids = Inr ?ds" by (rule filtered_done_eq [OF all])
    have "d \<in> set ?ds" using i dep isdone by force
    then obtain x xs where xs: "?ds = x # xs" by (cases ?ds) auto
    then have "x \<in> set ?ds" by simp
    then obtain j where j: "j \<in> set ids" and x: "x = the (get_deposit e j)" and xd: "dep_state x = DepDone"
      by auto
    from all j x have "get_deposit e j = Some x" by auto
    moreover have "unlink e ids = Inl (UserError (DepositInValidState (dep_name x)))"
      by (simp add: unlink_def fd xs)
    ultimately show ?thesis using j xd by blast
  qed
  with err c show ?thesis by blast
qed

theorem C10_unlink_batch_witness:
  "unlink demo_env_done [2, 1] = Inl (UserError (DepositInValidState ''DEP1''))
   \<and> commit demo_env_done (unlink demo_env_done [2, 1]) = demo_env_done"
proof -
  have h: "\<exists>i \<in> set [2, 1]. \<exists>d. get_deposit demo_env_done i = Some d \<and> dep_state d = DepDone"
    by (simp add: demo_done_get_deposit demo_done_states del: One_nat_def)
  have all: "\<forall>i \<in> set [2, 1]. get_deposit demo_env_done i \<noteq> None"
    by (simp add: demo_done_get_deposit del: One_nat_def)
  from C10_unlink_batch [OF h] all
  have c: "commit demo_env_done (unlink demo_env_done [2, 1]) = demo_env_done"
    and "\<exists>i \<in> set [2, 1]. \<exists>d. get_deposit demo_env_done i = Some d \<and> dep_state d = DepDone
             \<and> unlink demo_env_done [2, 1] = Inl (UserError (DepositInValidState (dep_name d)))"
    by blast+
  then have "unlink demo_env_done [2, 1] = Inl (UserError (DepositInValidState ''DEP1''))"
    by (auto simp: demo_done_get_deposit demo_done_states simp del: One_nat_def)
  with c show ?thesis by (intro conjI)
qed

end
